theory Spec2Isabelle
  imports Main "HOL-Library.Sublist" "HOL-Library.Multiset"
begin

chapter \<open>The program\<close>

section \<open>Strings\<close>

text \<open>
  Python strings are modelled as HOL strings. \<open>str.lower\<close> and \<open>str.upper\<close> are modelled
  on the ASCII letters, which is where the program uses them (file extensions and the
  format tags of \<open>CONVERT_OPTIONS\<close>); every other character is left as it is.
\<close>

definition ascii_upper :: string where
  "ascii_upper = ''ABCDEFGHIJKLMNOPQRSTUVWXYZ''"

definition ascii_lower :: string where
  "ascii_lower = ''abcdefghijklmnopqrstuvwxyz''"

definition lower_char :: "char \<Rightarrow> char" where
  "lower_char c = (case map_of (zip ascii_upper ascii_lower) c of Some d \<Rightarrow> d | None \<Rightarrow> c)"

definition upper_char :: "char \<Rightarrow> char" where
  "upper_char c = (case map_of (zip ascii_lower ascii_upper) c of Some d \<Rightarrow> d | None \<Rightarrow> c)"

definition lower :: "string \<Rightarrow> string" where
  "lower s = map lower_char s"

definition upper :: "string \<Rightarrow> string" where
  "upper s = map upper_char s"

text \<open>The decimal rendering of a counter inside an f-string: \<open>f"{counter}"\<close>.\<close>

definition digit_char :: "nat \<Rightarrow> char" where
  "digit_char d = ''0123456789'' ! d"

fun str_nat :: "nat \<Rightarrow> string" where
  "str_nat n = (if n < 10 then [digit_char n] else str_nat (n div 10) @ [digit_char (n mod 10)])"

section \<open>Paths (\<open>os.path\<close>, POSIX flavour)\<close>

text \<open>\<open>s.rfind(c)\<close>: the highest index at which \<open>c\<close> occurs, \<open>-1\<close> when it does not.\<close>

definition rfind :: "char \<Rightarrow> string \<Rightarrow> int" where
  "rfind c s = (case filter (\<lambda>i. s ! i = c) (rev [0..<length s]) of
                  [] \<Rightarrow> - 1
                | i # _ \<Rightarrow> int i)"

text \<open>
  \<open>os.path.splitext\<close>: the extension starts at the last dot of the last path component,
  unless that component has only dots in front of it.
\<close>

definition splitext :: "string \<Rightarrow> string \<times> string" where
  "splitext p =
     (let sepIndex = rfind CHR ''/'' p;
          dotIndex = rfind CHR ''.'' p
      in if dotIndex > sepIndex \<and>
            list_ex (\<lambda>c. c \<noteq> CHR ''.'') (take (nat dotIndex - nat (sepIndex + 1)) (drop (nat (sepIndex + 1)) p))
         then (take (nat dotIndex) p, drop (nat dotIndex) p)
         else (p, []))"

definition basename :: "string \<Rightarrow> string" where
  "basename p = drop (nat (rfind CHR ''/'' p + 1)) p"

definition path_join :: "string \<Rightarrow> string \<Rightarrow> string" where
  "path_join a b =
     (if b \<noteq> [] \<and> hd b = CHR ''/'' then b
      else if a = [] \<or> last a = CHR ''/'' then a @ b
      else a @ ''/'' @ b)"

section \<open>Images and the file system\<close>

text \<open>
  Of a PIL image the program reads \<open>size\<close>, \<open>mode\<close> and \<open>info["exif"]\<close>. A file has a byte
  length and, when PIL can decode it, the image it holds. The file system is the finite
  list of the paths that exist, each with its file.
\<close>

record image =
  im_size :: "int \<times> int"
  im_mode :: string
  im_exif :: "string option"

record fsfile =
  f_bytes :: nat
  f_image :: "image option"

type_synonym filesystem = "(string \<times> fsfile) list"

definition path_exists :: "filesystem \<Rightarrow> string \<Rightarrow> bool" where
  "path_exists fs p = (p \<in> set (map fst fs))"

section \<open>\<open>ensure_unique_path\<close>\<close>

definition candidate_name :: "string \<Rightarrow> string \<Rightarrow> nat \<Rightarrow> string" where
  "candidate_name base ext counter = base @ ''_'' @ str_nat counter @ ext"

text \<open>
  The \<open>while os.path.exists(candidate)\<close> loop, with its two variables \<open>counter\<close> and
  \<open>candidate\<close>.
\<close>

function ensure_unique_loop :: "filesystem \<Rightarrow> string \<Rightarrow> string \<Rightarrow> nat \<Rightarrow> string \<Rightarrow> string" where
  "ensure_unique_loop fs base ext counter candidate =
     (if path_exists fs candidate
      then ensure_unique_loop fs base ext (counter + 1) (candidate_name base ext counter)
      else candidate)"
  by pat_completeness auto

definition ensure_unique_path :: "filesystem \<Rightarrow> string \<Rightarrow> string" where
  "ensure_unique_path fs path =
     (let (base, ext) = splitext path
      in ensure_unique_loop fs base ext 1 path)"

section \<open>The world a task runs in\<close>

text \<open>
  Keyword arguments of \<open>img.save\<close> are a dictionary from names to Python values.
\<close>

datatype pyval = PBool bool | PStr string | PInt int | PBytes string

type_synonym kwargs = "string \<Rightarrow> pyval option"

text \<open>
  The bitmap of a result message is either an image that came out of a file or the
  solid-colour image made by \<open>Image.new(mode, size, color)\<close>.
\<close>

datatype picture = Decoded image | Image_new string "int \<times> int" "nat \<times> nat \<times> nat"

record task_result =
  r_task_id :: nat
  r_status :: string
  r_inp_path :: string
  r_out_path :: "string option"
  r_before_size :: "nat option"
  r_after_size :: "nat option"
  r_thumb :: "picture option"
  r_error :: "string option"

datatype msg = Result task_result | Control string

text \<open>
  The calls into PIL that transform or encode an image are kept in a trace, in the order
  in which they are made, with their arguments.
\<close>

datatype libcall =
    Call_resize image "int \<times> int"
  | Call_convert image string
  | Call_save image string kwargs

record world =
  w_fs :: filesystem
  msg_q :: "msg list"
  w_calls :: "libcall list"

text \<open>
  What the libraries do is outside the program. \<open>fault\<close> says, for every place where the
  worker calls a library, whether that call raises an unexpected exception (with its
  message); \<open>encode\<close> is PIL's encoder, giving the file written or the exception raised;
  \<open>shrink\<close> is \<open>Image.thumbnail\<close>.
\<close>

datatype step =
    At_getsize_in | At_open | At_resize | At_convert | At_save
  | At_getsize_out | At_thumb_open | At_thumbnail

record env =
  fault :: "step \<Rightarrow> string option"
  encode :: "image \<Rightarrow> string \<Rightarrow> kwargs \<Rightarrow> string + fsfile"
  shrink :: "image \<Rightarrow> int \<times> int \<Rightarrow> string + image"

text \<open>
  A computation in the worker takes the world, returns a value or raises an exception
  (\<open>Inl\<close> with the exception's message), and leaves the world changed.
\<close>

type_synonym 'a prog = "world \<Rightarrow> (string + 'a) \<times> world"

definition returnE :: "'a \<Rightarrow> 'a prog" where
  "returnE x w = (Inr x, w)"

definition raiseE :: "string \<Rightarrow> 'a prog" where
  "raiseE e w = (Inl e, w)"

definition bindE :: "'a prog \<Rightarrow> ('a \<Rightarrow> 'b prog) \<Rightarrow> 'b prog" where
  "bindE m f w = (case m w of (Inl e, w') \<Rightarrow> (Inl e, w') | (Inr x, w') \<Rightarrow> f x w')"

text \<open>\<open>try: m except Exception as e: h(e)\<close>\<close>

definition try_except :: "'a prog \<Rightarrow> (string \<Rightarrow> 'a prog) \<Rightarrow> 'a prog" where
  "try_except m h w = (case m w of (Inl e, w') \<Rightarrow> h e w' | (Inr x, w') \<Rightarrow> (Inr x, w'))"

definition faulty :: "env \<Rightarrow> step \<Rightarrow> 'a prog \<Rightarrow> 'a prog" where
  "faulty E s m w = (case fault E s of Some e \<Rightarrow> (Inl e, w) | None \<Rightarrow> m w)"

definition logcall :: "libcall \<Rightarrow> unit prog" where
  "logcall c w = (Inr (), w\<lparr>w_calls := w_calls w @ [c]\<rparr>)"

definition msg_q_put :: "msg \<Rightarrow> unit prog" where
  "msg_q_put m w = (Inr (), w\<lparr>msg_q := msg_q w @ [m]\<rparr>)"

subsection \<open>Library calls\<close>

definition os_getsize :: "env \<Rightarrow> step \<Rightarrow> string \<Rightarrow> nat prog" where
  "os_getsize E s p =
     faulty E s (\<lambda>w. case map_of (w_fs w) p of
                       None \<Rightarrow> (Inl ''No such file or directory'', w)
                     | Some f \<Rightarrow> (Inr (f_bytes f), w))"

definition Image_open :: "env \<Rightarrow> step \<Rightarrow> string \<Rightarrow> image prog" where
  "Image_open E s p =
     faulty E s (\<lambda>w. case map_of (w_fs w) p of
                       None \<Rightarrow> (Inl ''No such file or directory'', w)
                     | Some f \<Rightarrow> (case f_image f of
                                     None \<Rightarrow> (Inl ''cannot identify image file'', w)
                                   | Some img \<Rightarrow> (Inr img, w)))"

definition Image_resize :: "env \<Rightarrow> image \<Rightarrow> int \<times> int \<Rightarrow> image prog" where
  "Image_resize E img sz =
     bindE (logcall (Call_resize img sz)) (\<lambda>_.
       faulty E At_resize
         (if fst sz \<le> 0 \<or> snd sz \<le> 0 then raiseE ''height and width must be > 0''
          else returnE (img\<lparr>im_size := sz\<rparr>)))"

definition Image_convert :: "env \<Rightarrow> image \<Rightarrow> string \<Rightarrow> image prog" where
  "Image_convert E img m =
     bindE (logcall (Call_convert img m)) (\<lambda>_.
       faulty E At_convert (returnE (img\<lparr>im_mode := m\<rparr>)))"

definition Image_save :: "env \<Rightarrow> image \<Rightarrow> string \<Rightarrow> kwargs \<Rightarrow> unit prog" where
  "Image_save E img path kw =
     bindE (logcall (Call_save img path kw)) (\<lambda>_.
       faulty E At_save
         (\<lambda>w. case encode E img path kw of
                 Inl e \<Rightarrow> (Inl e, w)
               | Inr f \<Rightarrow> (Inr (), w\<lparr>w_fs := (path, f) # w_fs w\<rparr>)))"

definition Image_thumbnail :: "env \<Rightarrow> image \<Rightarrow> int \<times> int \<Rightarrow> image prog" where
  "Image_thumbnail E img sz =
     faulty E At_thumbnail (\<lambda>w. (shrink E img sz, w))"

section \<open>Configuration\<close>

definition THUMBNAIL_SIZE :: "int \<times> int" where
  "THUMBNAIL_SIZE = (64, 48)"

definition WORKER_THREADS :: nat where
  "WORKER_THREADS = 4"

section \<open>\<open>process_single_file_task\<close>\<close>

definition get_exif_bytes :: "image \<Rightarrow> string option" where
  "get_exif_bytes img = im_exif img"

text \<open>Python's truth value of \<open>new_w\<close> and \<open>new_h\<close>: \<open>None\<close> and \<open>0\<close> are false.\<close>

definition truthy :: "int option \<Rightarrow> bool" where
  "truthy v = (case v of None \<Rightarrow> False | Some n \<Rightarrow> n \<noteq> 0)"

definition if_else :: "int option \<Rightarrow> int \<Rightarrow> int" where
  "if_else v d = (case v of None \<Rightarrow> d | Some n \<Rightarrow> if n \<noteq> 0 then n else d)"

text \<open>
  The resize block: \<open>None\<close> when the condition of the \<open>if\<close> is false and \<open>img.resize\<close>
  is not called, otherwise the \<open>(tgt_w, tgt_h)\<close> it is called with.
\<close>

definition resize_target :: "string \<Rightarrow> int option \<Rightarrow> int option \<Rightarrow> int \<times> int \<Rightarrow> (int \<times> int) option" where
  "resize_target resize_flag new_w new_h src =
     (if resize_flag \<noteq> ''Original'' \<and> (truthy new_w \<or> truthy new_h)
      then (let (src_w, src_h) = src;
                tgt_w = if_else new_w src_w;
                tgt_h = if_else new_h src_h
            in Some (tgt_w, tgt_h))
      else None)"

definition resize_step :: "env \<Rightarrow> string \<Rightarrow> int option \<Rightarrow> int option \<Rightarrow> image \<Rightarrow> image prog" where
  "resize_step E resize_flag new_w new_h img =
     (case resize_target resize_flag new_w new_h (im_size img) of
        None \<Rightarrow> returnE img
      | Some tgt \<Rightarrow> Image_resize E img tgt)"

text \<open>The target extension and the \<open>format\<close> given to PIL (\<open>None\<close>: PIL infers it).\<close>

definition target_of :: "string \<Rightarrow> string \<Rightarrow> string \<times> string option" where
  "target_of out_format ext =
     (if out_format \<noteq> ''Same as input''
      then (''.'' @ lower out_format,
            Some (if lower out_format \<in> set [''jpg'', ''jpeg''] then ''JPEG'' else upper out_format))
      else (ext, None))"

definition build_save_kwargs :: "string \<Rightarrow> string option \<Rightarrow> int \<Rightarrow> string option \<Rightarrow> kwargs" where
  "build_save_kwargs target_ext target_format quality exif_bytes =
     (let kw0 = [''optimize'' \<mapsto> PBool True];
          kw1 = (case target_format of None \<Rightarrow> kw0 | Some f \<Rightarrow> kw0(''format'' \<mapsto> PStr f));
          kw2 = (if target_ext \<in> set [''.jpg'', ''.jpeg'', ''.webp'']
                    \<or> (case target_format of
                          None \<Rightarrow> False
                        | Some f \<Rightarrow> f \<noteq> [] \<and> f \<in> set [''JPEG'', ''WEBP''])
                 then kw1(''quality'' \<mapsto> PInt quality) else kw1);
          kw3 = (case exif_bytes of
                   None \<Rightarrow> kw2
                 | Some b \<Rightarrow> if b \<noteq> [] then kw2(''exif'' \<mapsto> PBytes b) else kw2)
      in kw3)"

text \<open>\<open>save_kwargs.get("format", "")\<close>\<close>

definition get_format :: "kwargs \<Rightarrow> string" where
  "get_format kw = (case kw ''format'' of Some (PStr f) \<Rightarrow> f | _ \<Rightarrow> [])"

definition convert_step :: "env \<Rightarrow> kwargs \<Rightarrow> image \<Rightarrow> image prog" where
  "convert_step E save_kwargs img =
     (if upper (get_format save_kwargs) \<in> set [''JPEG''] \<and> im_mode img \<in> set [''RGBA'', ''P'']
      then Image_convert E img ''RGB''
      else returnE img)"

text \<open>\<open>ensure_unique_path\<close> reads the file system the worker sees at that moment.\<close>

definition unique_path :: "string \<Rightarrow> string prog" where
  "unique_path path w = (Inr (ensure_unique_path (w_fs w) path), w)"

text \<open>
  The inner \<open>try\<close> block of the thumbnail step and its handler, which makes the blank
  thumbnail.
\<close>

definition thumb_try :: "env \<Rightarrow> string \<Rightarrow> picture prog" where
  "thumb_try E save_path =
     bindE (Image_open E At_thumb_open save_path) (\<lambda>thumb_img.
     bindE (Image_thumbnail E thumb_img THUMBNAIL_SIZE) (\<lambda>thumb_img.
     returnE (Decoded thumb_img)))"

definition make_thumb :: "env \<Rightarrow> string \<Rightarrow> picture prog" where
  "make_thumb E save_path =
     try_except (thumb_try E save_path)
       (\<lambda>_. returnE (Image_new ''RGB'' THUMBNAIL_SIZE (220, 220, 220)))"

text \<open>
  The body of the outer \<open>try\<close> up to \<open>after_size = os.path.getsize(save_path)\<close>; it
  returns \<open>before_size\<close>, \<open>save_path\<close> and \<open>after_size\<close>.
\<close>

definition encode_and_write ::
  "env \<Rightarrow> string \<Rightarrow> string \<Rightarrow> int \<Rightarrow> string \<Rightarrow> int option \<Rightarrow> int option \<Rightarrow> string \<Rightarrow> bool
     \<Rightarrow> (nat \<times> string \<times> nat) prog" where
  "encode_and_write E inp_path out_dir quality resize_flag new_w new_h out_format preserve_meta =
     bindE (os_getsize E At_getsize_in inp_path) (\<lambda>before_size.
     bindE (Image_open E At_open inp_path) (\<lambda>img.
     let exif_bytes = (if preserve_meta then get_exif_bytes img else None) in
     bindE (resize_step E resize_flag new_w new_h img) (\<lambda>img.
     let base = basename inp_path;
         (name, ext) = splitext base;
         ext = lower ext;
         (target_ext, target_format) = target_of out_format ext;
         save_name = name @ target_ext;
         save_path = path_join out_dir save_name
     in bindE (unique_path save_path) (\<lambda>save_path.
     let save_kwargs = build_save_kwargs target_ext target_format quality exif_bytes in
     bindE (convert_step E save_kwargs img) (\<lambda>img.
     bindE (Image_save E img save_path save_kwargs) (\<lambda>_.
     bindE (os_getsize E At_getsize_out save_path) (\<lambda>after_size.
     returnE (before_size, save_path, after_size))))))))"

definition try_body ::
  "env \<Rightarrow> nat \<Rightarrow> string \<Rightarrow> string \<Rightarrow> int \<Rightarrow> string \<Rightarrow> int option \<Rightarrow> int option \<Rightarrow> string \<Rightarrow> bool
     \<Rightarrow> unit prog" where
  "try_body E task_id inp_path out_dir quality resize_flag new_w new_h out_format preserve_meta =
     bindE (encode_and_write E inp_path out_dir quality resize_flag new_w new_h out_format preserve_meta)
       (\<lambda>(before_size, save_path, after_size).
     bindE (make_thumb E save_path) (\<lambda>thumb_img.
     msg_q_put (Result \<lparr>r_task_id = task_id, r_status = ''done'', r_inp_path = inp_path,
                        r_out_path = Some save_path, r_before_size = Some before_size,
                        r_after_size = Some after_size, r_thumb = Some thumb_img,
                        r_error = None\<rparr>)))"

definition process_single_file_task ::
  "env \<Rightarrow> nat \<Rightarrow> string \<Rightarrow> string \<Rightarrow> int \<Rightarrow> string \<Rightarrow> int option \<Rightarrow> int option \<Rightarrow> string \<Rightarrow> bool
     \<Rightarrow> unit prog" where
  "process_single_file_task E task_id inp_path out_dir quality resize_flag new_w new_h out_format preserve_meta =
     try_except
       (try_body E task_id inp_path out_dir quality resize_flag new_w new_h out_format preserve_meta)
       (\<lambda>e. msg_q_put (Result \<lparr>r_task_id = task_id, r_status = ''error'', r_inp_path = inp_path,
                               r_out_path = None, r_before_size = None, r_after_size = None,
                               r_thumb = None, r_error = Some e\<rparr>))"

section \<open>The worker pool: \<open>worker_submit\<close>\<close>

text \<open>
  \<open>start_compression\<close> collects the rows as \<open>(idx, item, path)\<close> and reads the settings of
  the batch once; \<open>worker_submit\<close> submits one call of \<open>process_single_file_task\<close> per
  file to a \<open>ThreadPoolExecutor\<close> with \<open>WORKER_THREADS\<close> workers, waits for every future
  and then puts the control message \<open>all_done\<close>.

  The run of a batch is a step relation. The executor hands the submitted tasks to free
  workers in submission order (\<open>start\<close>); a running task finishes at any moment, in any
  order with respect to the other running tasks (\<open>finish\<close>), its call taken as one step on
  the shared world; \<open>f.result()\<close> re-raises what a call raised, so an exception out of a
  call would end \<open>worker_submit\<close> before its last statement (\<open>raised\<close>); when nothing is
  pending or running and nothing was raised, \<open>all_done\<close> is put, once.
\<close>

record task =
  t_idx :: nat
  t_item :: string
  t_path :: string

record settings =
  s_out_dir :: string
  s_quality :: int
  s_resize_flag :: string
  s_new_w :: "int option"
  s_new_h :: "int option"
  s_out_format :: string
  s_preserve_meta :: bool

definition submitted_call :: "env \<Rightarrow> settings \<Rightarrow> task \<Rightarrow> unit prog" where
  "submitted_call E cfg t =
     process_single_file_task E (t_idx t) (t_path t) (s_out_dir cfg) (s_quality cfg)
       (s_resize_flag cfg) (s_new_w cfg) (s_new_h cfg) (s_out_format cfg) (s_preserve_meta cfg)"

record pool =
  pending :: "task list"
  running :: "task list"
  raised :: bool
  signalled :: bool
  p_world :: world

definition pool_init :: "task list \<Rightarrow> world \<Rightarrow> pool" where
  "pool_init files w = \<lparr>pending = files, running = [], raised = False, signalled = False, p_world = w\<rparr>"

inductive pool_step :: "env \<Rightarrow> settings \<Rightarrow> pool \<Rightarrow> pool \<Rightarrow> bool" for E cfg where
  start:
    "pending s = t # ts \<Longrightarrow> length (running s) < WORKER_THREADS \<Longrightarrow>
     pool_step E cfg s (s\<lparr>pending := ts, running := running s @ [t]\<rparr>)"
| finish:
    "t \<in> set (running s) \<Longrightarrow> submitted_call E cfg t (p_world s) = (r, w') \<Longrightarrow>
     pool_step E cfg s (s\<lparr>running := remove1 t (running s),
                            raised := (raised s \<or> isl r), p_world := w'\<rparr>)"
| all_done:
    "pending s = [] \<Longrightarrow> running s = [] \<Longrightarrow> \<not> raised s \<Longrightarrow> \<not> signalled s \<Longrightarrow>
     pool_step E cfg s (s\<lparr>signalled := True,
                            p_world := (p_world s)\<lparr>msg_q := msg_q (p_world s) @ [Control ''all_done'']\<rparr>\<rparr>)"

text \<open>The same steps as a function: the states one step away.\<close>

definition pool_next :: "env \<Rightarrow> settings \<Rightarrow> pool \<Rightarrow> pool list" where
  "pool_next E cfg s =
     (case pending s of
        [] \<Rightarrow> []
      | t # ts \<Rightarrow> if length (running s) < WORKER_THREADS
                  then [s\<lparr>pending := ts, running := running s @ [t]\<rparr>] else []) @
     map (\<lambda>t. s\<lparr>running := remove1 t (running s),
                 raised := (raised s \<or> isl (fst (submitted_call E cfg t (p_world s)))),
                 p_world := snd (submitted_call E cfg t (p_world s))\<rparr>) (running s) @
     (if pending s = [] \<and> running s = [] \<and> \<not> raised s \<and> \<not> signalled s
      then [s\<lparr>signalled := True,
              p_world := (p_world s)\<lparr>msg_q := msg_q (p_world s) @ [Control ''all_done'']\<rparr>\<rparr>]
      else [])"

section \<open>The aggregator: \<open>poll_queue\<close>\<close>

text \<open>
  Of the window \<open>poll_queue\<close> reads and writes the rows of the list (with the hidden
  \<open>path\<close> column and the thumbnail set on the row), \<open>thumb_refs\<close>, the progress bar, the
  dialogs shown and the label of totals. What Tk and the formatting of floating-point
  numbers do is a parameter: \<open>PhotoImage\<close> may raise, \<open>format_kb\<close> renders a byte count as
  kilobytes with two decimals, \<open>totals_text\<close> is the text of the final label.
\<close>

record tree_row =
  row_item :: string
  row_path :: string
  row_before :: string
  row_after :: string
  row_status :: string
  row_out :: string
  row_image :: "picture option"

record gui =
  tree :: "tree_row list"
  thumb_refs :: "string \<Rightarrow> picture option"
  progress_value :: int
  progress_maximum :: int
  dialogs :: "(string \<times> string) list"
  size_label :: string

record toolkit =
  PhotoImage :: "picture option \<Rightarrow> string + picture"
  format_kb :: "nat \<Rightarrow> string"
  totals_text :: "tree_row list \<Rightarrow> string"

definition human_kb :: "toolkit \<Rightarrow> nat option \<Rightarrow> string" where
  "human_kb T size_bytes =
     (case size_bytes of
        None \<Rightarrow> ''-''
      | Some n \<Rightarrow> if n \<noteq> 0 then format_kb T n else ''-'')"

text \<open>The \<open>for item in tree.get_children()\<close> loop that looks for the row with the message's path.\<close>

fun find_item :: "tree_row list \<Rightarrow> string \<Rightarrow> string option" where
  "find_item [] inp_path = None"
| "find_item (row # rows) inp_path =
     (if row_path row = inp_path then Some (row_item row) else find_item rows inp_path)"

text \<open>\<open>tree.set(item, column, value)\<close> and \<open>tree.item(item, image=...)\<close>: a change of the row \<open>item\<close>.\<close>

definition tree_set :: "string \<Rightarrow> (tree_row \<Rightarrow> tree_row) \<Rightarrow> tree_row list \<Rightarrow> tree_row list" where
  "tree_set it f rows = map (\<lambda>row. if row_item row = it then f row else row) rows"

text \<open>The body of the \<open>while\<close> loop for one message: a result, or a control message.\<close>

definition handle_result :: "toolkit \<Rightarrow> task_result \<Rightarrow> gui \<Rightarrow> gui" where
  "handle_result T r g =
     (case find_item (tree g) (r_inp_path r) of
        None \<Rightarrow> g
      | Some target_item \<Rightarrow>
          if target_item = [] then g
          else if r_status r = ''done'' then
            (let g1 = (case PhotoImage T (r_thumb r) of
                         Inl _ \<Rightarrow> g
                       | Inr photo \<Rightarrow>
                           g\<lparr>thumb_refs := (thumb_refs g)(target_item \<mapsto> photo),
                              tree := tree_set target_item (\<lambda>row. row\<lparr>row_image := Some photo\<rparr>) (tree g)\<rparr>)
             in g1\<lparr>tree := tree_set target_item
                       (\<lambda>row. row\<lparr>row_before := human_kb T (r_before_size r),
                                   row_after := human_kb T (r_after_size r),
                                   row_status := ''Done'',
                                   row_out := (case r_out_path r of
                                                 None \<Rightarrow> ''-''
                                               | Some p \<Rightarrow> if p \<noteq> [] then basename p else ''-'')\<rparr>)
                       (tree g1),
                    progress_value := progress_value g1 + 1\<rparr>)
          else if r_status r = ''error'' then
            g\<lparr>tree := tree_set target_item
                       (\<lambda>row. row\<lparr>row_status := ''Error: '' @ (case r_error r of None \<Rightarrow> ''None'' | Some e \<Rightarrow> e)\<rparr>)
                       (tree g),
              progress_value := progress_value g + 1\<rparr>
          else g)"

definition handle_msg :: "toolkit \<Rightarrow> msg \<Rightarrow> gui \<Rightarrow> gui" where
  "handle_msg T m g =
     (case m of
        Control c \<Rightarrow>
          if c = ''all_done''
          then g\<lparr>progress_value := progress_maximum g,
                 dialogs := dialogs g @ [(''Done'', ''Batch compression completed!'')]\<rparr>
          else g
      | Result r \<Rightarrow> handle_result T r g)"

text \<open>
  One call of \<open>poll_queue\<close> on the messages that are in the queue: it handles them in
  order, empties the queue, and says whether it asks to be called again.
\<close>

definition poll_queue :: "toolkit \<Rightarrow> gui \<Rightarrow> msg list \<Rightarrow> gui \<times> msg list \<times> bool" where
  "poll_queue T g q =
     (let g' = foldl (\<lambda>g m. handle_msg T m g) g q
      in if progress_value g' < progress_maximum g'
         then (g', [], True)
         else (g'\<lparr>size_label := totals_text T (tree g')\<rparr>, [], False))"

chapter \<open>Notions used in the properties\<close>

section \<open>Reading the file system\<close>

definition max_path_len :: "filesystem \<Rightarrow> nat" where
  "max_path_len fs = fold max (map (length \<circ> fst) fs) 0"

text \<open>The image PIL decodes from the file at a path, when there is one.\<close>

definition source_image :: "world \<Rightarrow> string \<Rightarrow> image option" where
  "source_image w p = (case map_of (w_fs w) p of None \<Rightarrow> None | Some f \<Rightarrow> f_image f)"

section \<open>What the stages of a task compute\<close>

text \<open>The PIL calls one task adds to the trace.\<close>

definition task_calls ::
  "env \<Rightarrow> nat \<Rightarrow> string \<Rightarrow> string \<Rightarrow> int \<Rightarrow> string \<Rightarrow> int option \<Rightarrow> int option \<Rightarrow> string \<Rightarrow> bool
     \<Rightarrow> world \<Rightarrow> libcall list" where
  "task_calls E task_id inp_path out_dir quality resize_flag new_w new_h out_format preserve_meta w =
     drop (length (w_calls w))
       (w_calls (snd (process_single_file_task E task_id inp_path out_dir quality resize_flag
                        new_w new_h out_format preserve_meta w)))"

text \<open>
  The values the worker computes on the way, as functions of the task and of the decoded
  source image: the image after the resize block and the call that block makes, the
  target extension and format, the keyword arguments, the image after the mode
  conversion and the call it makes, and the path written.
\<close>

definition resized :: "string \<Rightarrow> int option \<Rightarrow> int option \<Rightarrow> image \<Rightarrow> image" where
  "resized rf nw nh img =
     (case resize_target rf nw nh (im_size img) of None \<Rightarrow> img | Some t \<Rightarrow> img\<lparr>im_size := t\<rparr>)"

definition resize_calls :: "string \<Rightarrow> int option \<Rightarrow> int option \<Rightarrow> image \<Rightarrow> libcall list" where
  "resize_calls rf nw nh img =
     (case resize_target rf nw nh (im_size img) of None \<Rightarrow> [] | Some t \<Rightarrow> [Call_resize img t])"

definition wants_rgb :: "kwargs \<Rightarrow> image \<Rightarrow> bool" where
  "wants_rgb kw img =
     (upper (get_format kw) \<in> set [''JPEG''] \<and> im_mode img \<in> set [''RGBA'', ''P''])"

definition converted :: "kwargs \<Rightarrow> image \<Rightarrow> image" where
  "converted kw img = (if wants_rgb kw img then img\<lparr>im_mode := ''RGB''\<rparr> else img)"

definition convert_calls :: "kwargs \<Rightarrow> image \<Rightarrow> libcall list" where
  "convert_calls kw img = (if wants_rgb kw img then [Call_convert img ''RGB''] else [])"

definition target_for :: "string \<Rightarrow> string \<Rightarrow> string \<times> string option" where
  "target_for fmt ip = target_of fmt (lower (snd (splitext (basename ip))))"

definition kwargs_for :: "string \<Rightarrow> string \<Rightarrow> int \<Rightarrow> bool \<Rightarrow> image \<Rightarrow> kwargs" where
  "kwargs_for fmt ip q pm img0 =
     build_save_kwargs (fst (target_for fmt ip)) (snd (target_for fmt ip)) q
       (if pm then get_exif_bytes img0 else None)"

definition save_path_for :: "filesystem \<Rightarrow> string \<Rightarrow> string \<Rightarrow> string \<Rightarrow> string" where
  "save_path_for fs od fmt ip =
     ensure_unique_path fs (path_join od (fst (splitext (basename ip)) @ fst (target_for fmt ip)))"

definition planned_calls ::
  "filesystem \<Rightarrow> string \<Rightarrow> string \<Rightarrow> int \<Rightarrow> string \<Rightarrow> int option \<Rightarrow> int option \<Rightarrow> string \<Rightarrow> bool
     \<Rightarrow> image \<Rightarrow> libcall list" where
  "planned_calls fs ip od q rf nw nh fmt pm img0 =
     resize_calls rf nw nh img0 @
     convert_calls (kwargs_for fmt ip q pm img0) (resized rf nw nh img0) @
     [Call_save (converted (kwargs_for fmt ip q pm img0) (resized rf nw nh img0))
        (save_path_for fs od fmt ip) (kwargs_for fmt ip q pm img0)]"

section \<open>Target formats as the specification names them\<close>

text \<open>
  The specification speaks of the JPEG and WEBP families of a target format. Following its
  words: an explicit format tag names the family (both spellings of JPEG name the same
  one), and with \<open>Same as input\<close> the format is the one inferred at encode time from the
  extension of the file. PIL's encoder infers it from its registry of extensions, in which
  \<open>.jfif\<close>, \<open>.jpe\<close>, \<open>.jpg\<close> and \<open>.jpeg\<close> are JPEG and \<open>.webp\<close> is WEBP.
\<close>

datatype family = JPEG_family | WEBP_family | Other_family

definition family_of_tag :: "string \<Rightarrow> family" where
  "family_of_tag t =
     (if t \<in> set [''jpg'', ''jpeg''] then JPEG_family
      else if t = ''webp'' then WEBP_family
      else Other_family)"

definition pil_family_of_ext :: "string \<Rightarrow> family" where
  "pil_family_of_ext ext =
     (if ext \<in> set [''.jfif'', ''.jpe'', ''.jpg'', ''.jpeg''] then JPEG_family
      else if ext = ''.webp'' then WEBP_family
      else Other_family)"

definition spec_target_family :: "string \<Rightarrow> string \<Rightarrow> family" where
  "spec_target_family out_format inp_path =
     (if out_format = ''Same as input''
      then pil_family_of_ext (lower (snd (splitext (basename inp_path))))
      else family_of_tag (lower out_format))"

section \<open>The invariant and the measure of a batch run\<close>

text \<open>
  What holds in every state of a run: the queue is what it was at the start, then the
  results put so far, then \<open>all_done\<close> if it was signalled; every submitted identifier is
  either on a result or still pending or running, as often as it was submitted.
\<close>

definition pool_inv :: "task list \<Rightarrow> world \<Rightarrow> pool \<Rightarrow> task_result list \<Rightarrow> bool" where
  "pool_inv files w0 s rs =
     (msg_q (p_world s) = msg_q w0 @ map Result rs @ (if signalled s then [Control ''all_done''] else []) \<and>
      mset (map r_task_id rs) + mset (map t_idx (pending s @ running s)) = mset (map t_idx files) \<and>
      (signalled s \<longrightarrow> pending s = [] \<and> running s = []) \<and> \<not> raised s)"

definition pool_measure :: "pool \<Rightarrow> nat" where
  "pool_measure s = 2 * length (pending s) + length (running s) + (if signalled s then 0 else 1)"

section \<open>Sample data\<close>

definition fs_photos :: filesystem where
  "fs_photos = [(''out/photo.jpg'', \<lparr>f_bytes = 10, f_image = None\<rparr>),
                (''out/photo_1.jpg'', \<lparr>f_bytes = 11, f_image = None\<rparr>)]"

text \<open>
  One RGBA picture of 200 by 300 pixels with an EXIF blob, libraries that do not fail, an
  encoder that writes 1234 bytes, and an empty queue.
\<close>

definition img_src :: image where
  "img_src = \<lparr>im_size = (200, 300), im_mode = ''RGBA'', im_exif = Some ''Exif-blob''\<rparr>"

definition fs_in :: filesystem where
  "fs_in = [(''in/photo.png'', \<lparr>f_bytes = 5000, f_image = Some img_src\<rparr>)]"

definition E_ok :: env where
  "E_ok = \<lparr>fault = (\<lambda>_. None),
           encode = (\<lambda>img path kw. Inr \<lparr>f_bytes = 1234, f_image = Some img\<rparr>),
           shrink = (\<lambda>img sz. Inr (img\<lparr>im_size := sz\<rparr>))\<rparr>"

definition w_in :: world where
  "w_in = \<lparr>w_fs = fs_in, msg_q = [], w_calls = []\<rparr>"

text \<open>An ordinary JPEG picture under the name \<open>in/photo.jfif\<close>.\<close>

definition img_jfif :: image where
  "img_jfif = \<lparr>im_size = (200, 300), im_mode = ''RGB'', im_exif = None\<rparr>"

definition w_jfif :: world where
  "w_jfif = \<lparr>w_fs = [(''in/photo.jfif'', \<lparr>f_bytes = 5000, f_image = Some img_jfif\<rparr>)],
             msg_q = [], w_calls = []\<rparr>"

text \<open>
  A stand-in for PIL's encoder that, as PIL does, refuses to write an image with an alpha
  channel or a palette as JPEG, whether JPEG was named as the format or is inferred from
  the extension of the path; and a file with a \<open>.jpg\<close> name that decodes to an RGBA image.
\<close>

definition writes_jpeg :: "string \<Rightarrow> kwargs \<Rightarrow> bool" where
  "writes_jpeg path kw =
     (case kw ''format'' of
        Some (PStr f) \<Rightarrow> f = ''JPEG''
      | _ \<Rightarrow> pil_family_of_ext (lower (snd (splitext path))) = JPEG_family)"

definition E_pil :: env where
  "E_pil = \<lparr>fault = (\<lambda>_. None),
            encode = (\<lambda>img path kw.
               if writes_jpeg path kw \<and> im_mode img \<in> set [''RGBA'', ''P'']
               then Inl (''cannot write mode '' @ im_mode img @ '' as JPEG'')
               else Inr \<lparr>f_bytes = 1234, f_image = Some img\<rparr>),
            shrink = (\<lambda>img sz. Inr (img\<lparr>im_size := sz\<rparr>))\<rparr>"

definition img_scan :: image where
  "img_scan = \<lparr>im_size = (200, 300), im_mode = ''RGBA'', im_exif = None\<rparr>"

definition w_scan :: world where
  "w_scan = \<lparr>w_fs = [(''in/scan.jpg'', \<lparr>f_bytes = 5000, f_image = Some img_scan\<rparr>)],
             msg_q = [], w_calls = []\<rparr>"

text \<open>Libraries in which \<open>Image.thumbnail\<close> raises, and the world after \<open>in/photo.png\<close> was written.\<close>

definition E_thumb_fails :: env where
  "E_thumb_fails = \<lparr>fault = (\<lambda>s. if s = At_thumbnail then Some ''out of memory'' else None),
           encode = (\<lambda>img path kw. Inr \<lparr>f_bytes = 1234, f_image = Some img\<rparr>),
           shrink = (\<lambda>img sz. Inr (img\<lparr>im_size := sz\<rparr>))\<rparr>"

definition w_written :: world where
  "w_written = \<lparr>w_fs = (''out/photo.png'', \<lparr>f_bytes = 1234, f_image = Some img_src\<rparr>) # fs_in,
                msg_q = [],
                w_calls = [Call_save img_src ''out/photo.png''
                             (kwargs_for ''png'' ''in/photo.png'' 70 False img_src)]\<rparr>"

text \<open>A batch of two files, the second of which does not exist, finishing out of order.\<close>

definition task_a :: task where
  "task_a = \<lparr>t_idx = 0, t_item = ''I001'', t_path = ''in/photo.png''\<rparr>"

definition task_b :: task where
  "task_b = \<lparr>t_idx = 1, t_item = ''I002'', t_path = ''in/missing.png''\<rparr>"

definition cfg_png :: settings where
  "cfg_png = \<lparr>s_out_dir = ''out'', s_quality = 70, s_resize_flag = ''Original'',
              s_new_w = None, s_new_h = None, s_out_format = ''png'', s_preserve_meta = False\<rparr>"

definition w_after_b :: world where
  "w_after_b = snd (submitted_call E_ok cfg_png task_b w_in)"

definition w_after_ba :: world where
  "w_after_ba = snd (submitted_call E_ok cfg_png task_a w_after_b)"

definition pool_final :: pool where
  "pool_final = \<lparr>pending = [], running = [], raised = False, signalled = True,
                  p_world = w_after_ba\<lparr>msg_q := msg_q w_after_ba @ [Control ''all_done'']\<rparr>\<rparr>"

text \<open>A toolkit that does not fail, a list row as \<open>add_file_row\<close> makes it, and a result.\<close>

definition T_plain :: toolkit where
  "T_plain = \<lparr>PhotoImage = (\<lambda>p. case p of None \<Rightarrow> Inl ''no image'' | Some x \<Rightarrow> Inr x),
              format_kb = (\<lambda>n. str_nat (n div 1024) @ '' KB''),
              totals_text = (\<lambda>rows. [])\<rparr>"

definition queued_row :: "string \<Rightarrow> string \<Rightarrow> tree_row" where
  "queued_row it p = \<lparr>row_item = it, row_path = p, row_before = ''-'', row_after = ''-'',
                      row_status = ''Queued'', row_out = ''-'', row_image = None\<rparr>"

definition gui_of :: "tree_row list \<Rightarrow> gui" where
  "gui_of rows = \<lparr>tree = rows, thumb_refs = Map.empty, progress_value = 0,
                  progress_maximum = 1, dialogs = [], size_label = []\<rparr>"

definition result_a :: task_result where
  "result_a = \<lparr>r_task_id = 0, r_status = ''done'', r_inp_path = ''in/a.png'',
               r_out_path = Some ''out/a.png'', r_before_size = Some 5000,
               r_after_size = Some 1234,
               r_thumb = Some (Image_new ''RGB'' (64, 48) (220, 220, 220)), r_error = None\<rparr>"

chapter \<open>Properties\<close>

section \<open>Termination of the naming loop\<close>

declare str_nat.simps [simp del]

lemma str_nat_bound: "n < 10 ^ length (str_nat n)"
proof (induction n rule: str_nat.induct)
  case (1 n)
  show ?case
  proof (cases "n < 10")
    case True
    then show ?thesis by (subst str_nat.simps) simp
  next
    case False
    with 1 have ih: "n div 10 < 10 ^ length (str_nat (n div 10))" by simp
    have "n < 10 * (n div 10 + 1)" by presburger
    also have "\<dots> \<le> 10 * 10 ^ length (str_nat (n div 10))" using ih by simp
    finally show ?thesis using False by (subst str_nat.simps) simp
  qed
qed

lemma fold_max_ge: "fold max xs (a::nat) \<ge> a"
  by (induction xs arbitrary: a) (auto intro: order_trans [OF max.cobounded2])

lemma fold_max_mem: "x \<in> set xs \<Longrightarrow> x \<le> fold max xs (a::nat)"
proof (induction xs arbitrary: a)
  case Nil
  then show ?case by simp
next
  case (Cons y ys)
  show ?case
  proof (cases "x = y")
    case True
    have "x \<le> max x a" by simp
    also have "\<dots> \<le> fold max ys (max x a)" by (rule fold_max_ge)
    finally show ?thesis using True by simp
  next
    case False
    with Cons show ?thesis by simp
  qed
qed

lemma path_exists_len: "path_exists fs p \<Longrightarrow> length p \<le> max_path_len fs"
proof -
  assume "path_exists fs p"
  then have "length p \<in> set (map (length \<circ> fst) fs)"
    by (force simp: path_exists_def)
  then show ?thesis
    unfolding max_path_len_def by (rule fold_max_mem)
qed

lemma candidate_beyond_bound:
  assumes "10 ^ max_path_len fs \<le> k"
  shows "\<not> path_exists fs (candidate_name base ext k)"
proof
  assume "path_exists fs (candidate_name base ext k)"
  then have "length (candidate_name base ext k) \<le> max_path_len fs"
    by (rule path_exists_len)
  then have len: "length (str_nat k) \<le> max_path_len fs"
    by (simp add: candidate_name_def)
  have "k < 10 ^ length (str_nat k)" by (rule str_nat_bound)
  also have "\<dots> \<le> (10::nat) ^ max_path_len fs"
    using len by (simp add: power_increasing)
  finally show False using assms by simp
qed

termination ensure_unique_loop
proof (relation "measure (\<lambda>(fs, base, ext, counter, candidate).
          2 * (10 ^ max_path_len fs - counter) + (if path_exists fs candidate then 1 else 0))")
  show "wf (measure (\<lambda>(fs, base, ext, counter, candidate).
          2 * (10 ^ max_path_len fs - counter) + (if path_exists fs candidate then 1 else 0)))"
    by simp
next
  fix fs :: filesystem and base ext :: string and counter :: nat and candidate :: string
  assume ex: "path_exists fs candidate"
  show "((fs, base, ext, counter + 1, candidate_name base ext counter),
         (fs, base, ext, counter, candidate))
        \<in> measure (\<lambda>(fs, base, ext, counter, candidate).
          2 * (10 ^ max_path_len fs - counter) + (if path_exists fs candidate then 1 else 0))"
  proof (cases "10 ^ max_path_len fs \<le> counter")
    case True
    then have "\<not> path_exists fs (candidate_name base ext counter)"
      by (rule candidate_beyond_bound)
    with ex True show ?thesis by simp
  next
    case False
    with ex show ?thesis by auto
  qed
qed

declare ensure_unique_loop.simps [simp del]

section \<open>The path \<open>ensure_unique_path\<close> returns\<close>

lemma ensure_unique_loop_spec:
  "\<not> path_exists fs (ensure_unique_loop fs base ext c cand) \<and>
   (\<not> path_exists fs cand \<longrightarrow> ensure_unique_loop fs base ext c cand = cand) \<and>
   (path_exists fs cand \<longrightarrow>
      (\<exists>k\<ge>c. ensure_unique_loop fs base ext c cand = candidate_name base ext k \<and>
         (\<forall>j. c \<le> j \<and> j < k \<longrightarrow> path_exists fs (candidate_name base ext j))))"
proof (induction fs base ext c cand rule: ensure_unique_loop.induct)
  case (1 fs base ext counter candidate)
  show ?case
  proof (cases "path_exists fs candidate")
    case False
    then show ?thesis by (simp add: ensure_unique_loop.simps)
  next
    case True
    note ih = 1 [OF True]
    have unf: "ensure_unique_loop fs base ext counter candidate =
               ensure_unique_loop fs base ext (counter + 1) (candidate_name base ext counter)"
      using True by (subst ensure_unique_loop.simps) simp
    show ?thesis
    proof (cases "path_exists fs (candidate_name base ext counter)")
      case False
      with ih have "ensure_unique_loop fs base ext (counter + 1) (candidate_name base ext counter)
                    = candidate_name base ext counter" by simp
      with unf False True show ?thesis by auto
    next
      case ex: True
      with ih obtain k where k: "counter + 1 \<le> k"
        "ensure_unique_loop fs base ext (counter + 1) (candidate_name base ext counter)
           = candidate_name base ext k"
        "\<forall>j. counter + 1 \<le> j \<and> j < k \<longrightarrow> path_exists fs (candidate_name base ext j)"
        by blast
      have "\<forall>j. counter \<le> j \<and> j < k \<longrightarrow> path_exists fs (candidate_name base ext j)"
      proof (intro allI impI)
        fix j assume "counter \<le> j \<and> j < k"
        then have "j = counter \<or> (counter + 1 \<le> j \<and> j < k)" by arith
        then show "path_exists fs (candidate_name base ext j)" using ex k(3) by blast
      qed
      moreover have "counter \<le> k" using k(1) by simp
      ultimately show ?thesis using unf k(2) ih True by auto
    qed
  qed
qed

text \<open>
  C3. On every file system and for every desired path, \<open>ensure_unique_path\<close> returns a path
  at which no file exists. When no file exists at the desired path, that path is returned
  unchanged. When a file exists there, the result is \<open>base_k ext\<close> for some \<open>k \<ge> 1\<close>, where
  \<open>(base, ext)\<close> is the \<open>splitext\<close> of the desired path, and a file exists at every
  \<open>base_j ext\<close> with \<open>1 \<le> j < k\<close>: the lowest-numbered free variant.
\<close>

theorem ensure_unique_path_lowest_free:
  "\<not> path_exists fs (ensure_unique_path fs path) \<and>
   (\<not> path_exists fs path \<longrightarrow> ensure_unique_path fs path = path) \<and>
   (path_exists fs path \<longrightarrow>
      (\<exists>k\<ge>1. ensure_unique_path fs path
                  = candidate_name (fst (splitext path)) (snd (splitext path)) k \<and>
         (\<forall>j. 1 \<le> j \<and> j < k \<longrightarrow>
            path_exists fs (candidate_name (fst (splitext path)) (snd (splitext path)) j))))"
  using ensure_unique_loop_spec [of fs "fst (splitext path)" "snd (splitext path)" 1 path]
  by (simp add: ensure_unique_path_def split_beta)

lemma splitext_photo: "splitext ''out/photo.jpg'' = (''out/photo'', ''.jpg'')"
  by (simp add: splitext_def rfind_def)

lemma ensure_unique_path_photo:
  "ensure_unique_path fs_photos ''out/photo.jpg'' = ''out/photo_2.jpg''"
  by (simp add: ensure_unique_path_def splitext_photo ensure_unique_loop.simps path_exists_def
        fs_photos_def candidate_name_def str_nat.simps digit_char_def)

theorem ensure_unique_path_lowest_free_witness:
  "path_exists fs_photos ''out/photo.jpg'' \<and>
   ensure_unique_path fs_photos ''out/photo.jpg'' = ''out/photo_2.jpg'' \<and>
   \<not> path_exists fs_photos ''out/photo_2.jpg'' \<and>
   (\<exists>k\<ge>1. ''out/photo_2.jpg'' = candidate_name ''out/photo'' ''.jpg'' k \<and>
      (\<forall>j. 1 \<le> j \<and> j < k \<longrightarrow> path_exists fs_photos (candidate_name ''out/photo'' ''.jpg'' j))) \<and>
   \<not> path_exists fs_photos ''out/new.png'' \<and>
   ensure_unique_path fs_photos ''out/new.png'' = ''out/new.png''"
proof -
  have ex: "path_exists fs_photos ''out/photo.jpg''"
    by (simp add: path_exists_def fs_photos_def)
  have nex: "\<not> path_exists fs_photos ''out/new.png''"
    by (simp add: path_exists_def fs_photos_def)
  note a = ensure_unique_path_lowest_free [of fs_photos "''out/photo.jpg''"]
  note b = ensure_unique_path_lowest_free [of fs_photos "''out/new.png''"]
  from a ex have "\<not> path_exists fs_photos ''out/photo_2.jpg''"
    by (simp add: ensure_unique_path_photo)
  moreover from a ex have "\<exists>k\<ge>1. ''out/photo_2.jpg'' = candidate_name ''out/photo'' ''.jpg'' k \<and>
      (\<forall>j. 1 \<le> j \<and> j < k \<longrightarrow> path_exists fs_photos (candidate_name ''out/photo'' ''.jpg'' j))"
    by (simp add: ensure_unique_path_photo splitext_photo)
  moreover from b nex have "ensure_unique_path fs_photos ''out/new.png'' = ''out/new.png''"
    by simp
  ultimately show ?thesis using ex nex by (simp add: ensure_unique_path_photo)
qed

section \<open>Running the worker: what each computation does to the world\<close>

lemma bindE_E:
  assumes "bindE m f w = (r, w')"
  obtains (raised) e where "m w = (Inl e, w')" "r = Inl e"
        | (returned) x w1 where "m w = (Inr x, w1)" "f x w1 = (r, w')"
  using assms by (auto simp: bindE_def split: prod.splits sum.splits)

lemma try_except_E:
  assumes "try_except m h w = (r, w')"
  obtains (raised) e w1 where "m w = (Inl e, w1)" "h e w1 = (r, w')"
        | (returned) x where "m w = (Inr x, w')" "r = Inr x"
  using assms by (auto simp: try_except_def split: prod.splits sum.splits)

lemma os_getsize_D: "os_getsize E s p w = (r, w') \<Longrightarrow> w' = w"
  by (auto simp: os_getsize_def faulty_def split: option.splits)

lemma Image_open_D:
  "Image_open E s p w = (r, w') \<Longrightarrow> w' = w \<and> (\<forall>img. r = Inr img \<longrightarrow> source_image w p = Some img)"
  by (auto simp: Image_open_def faulty_def source_image_def split: option.splits)

lemma Image_resize_D:
  "Image_resize E img sz w = (r, w') \<Longrightarrow>
     w' = w\<lparr>w_calls := w_calls w @ [Call_resize img sz]\<rparr> \<and> (\<forall>i. r = Inr i \<longrightarrow> i = img\<lparr>im_size := sz\<rparr>)"
  by (auto simp: Image_resize_def bindE_def logcall_def faulty_def raiseE_def returnE_def
           split: option.splits if_splits)

lemma Image_convert_D:
  "Image_convert E img m w = (r, w') \<Longrightarrow>
     w' = w\<lparr>w_calls := w_calls w @ [Call_convert img m]\<rparr> \<and> (\<forall>i. r = Inr i \<longrightarrow> i = img\<lparr>im_mode := m\<rparr>)"
  by (auto simp: Image_convert_def bindE_def logcall_def faulty_def raiseE_def returnE_def
           split: option.splits if_splits)

lemma Image_save_D:
  "Image_save E img p kw w = (r, w') \<Longrightarrow>
     msg_q w' = msg_q w \<and> w_calls w' = w_calls w @ [Call_save img p kw]"
  by (auto simp: Image_save_def bindE_def logcall_def faulty_def 
           split: option.splits sum.splits)

lemma unique_path_D: "unique_path p w = (r, w') \<Longrightarrow> w' = w \<and> r = Inr (ensure_unique_path (w_fs w) p)"
  by (auto simp: unique_path_def)

lemma Image_thumbnail_D: "Image_thumbnail E img sz w = (r, w') \<Longrightarrow> w' = w"
  by (auto simp: Image_thumbnail_def faulty_def split: option.splits)

lemma thumb_try_D: "thumb_try E p w = (r, w') \<Longrightarrow> w' = w"
  unfolding thumb_try_def
  by (auto elim!: bindE_E dest!: Image_open_D Image_thumbnail_D simp: returnE_def)

lemma make_thumb_D: "make_thumb E p w = (r, w') \<Longrightarrow> w' = w \<and> (\<exists>t. r = Inr t)"
  unfolding make_thumb_def
  by (auto elim!: try_except_E dest!: thumb_try_D simp: returnE_def)

lemma resize_step_D:
  "resize_step E rf nw nh img w = (r, w') \<Longrightarrow>
     w' = w\<lparr>w_calls := w_calls w @ resize_calls rf nw nh img\<rparr> \<and> (\<forall>i. r = Inr i \<longrightarrow> i = resized rf nw nh img)"
  by (auto simp: resize_step_def resized_def resize_calls_def returnE_def dest!: Image_resize_D split: option.splits)

lemma convert_step_D:
  "convert_step E kw img w = (r, w') \<Longrightarrow>
     w' = w\<lparr>w_calls := w_calls w @ convert_calls kw img\<rparr> \<and> (\<forall>i. r = Inr i \<longrightarrow> i = converted kw img)"
  unfolding convert_step_def converted_def convert_calls_def wants_rgb_def
  by (auto simp: returnE_def dest!: Image_convert_D split: if_splits)

lemma encode_and_write_calls:
  assumes "encode_and_write E ip od q rf nw nh fmt pm w = (r, w')"
  shows "msg_q w' = msg_q w \<and>
         (w_calls w' = w_calls w \<or>
          (\<exists>img0 cs. source_image w ip = Some img0 \<and> w_calls w' = w_calls w @ cs \<and>
             prefix cs (planned_calls (w_fs w) ip od q rf nw nh fmt pm img0)))"
  using assms unfolding encode_and_write_def Let_def split_beta
  apply (elim bindE_E)
  apply (auto dest!: os_getsize_D Image_open_D resize_step_D unique_path_D convert_step_D Image_save_D
       simp: planned_calls_def kwargs_for_def save_path_for_def target_for_def returnE_def)
  done

lemma try_body_D:
  assumes "try_body E tid ip od q rf nw nh fmt pm w = (r, w')"
  shows "(\<exists>e w1. encode_and_write E ip od q rf nw nh fmt pm w = (Inl e, w') \<and> r = Inl e) \<or>
         (\<exists>bs sp as th w1. encode_and_write E ip od q rf nw nh fmt pm w = (Inr (bs, sp, as), w1) \<and>
            make_thumb E sp w1 = (Inr th, w1) \<and> r = Inr () \<and>
            w' = w1\<lparr>msg_q := msg_q w1 @ [Result \<lparr>r_task_id = tid, r_status = ''done'', r_inp_path = ip,
                        r_out_path = Some sp, r_before_size = Some bs,
                        r_after_size = Some as, r_thumb = Some th,
                        r_error = None\<rparr>]\<rparr>)"
  using assms unfolding try_body_def
  by (auto elim!: bindE_E simp: msg_q_put_def dest: make_thumb_D)

lemma process_single_file_task_D:
  assumes "process_single_file_task E tid ip od q rf nw nh fmt pm w = (r, w')"
  shows "r = Inr () \<and>
         ((\<exists>e w1. encode_and_write E ip od q rf nw nh fmt pm w = (Inl e, w1) \<and>
             w' = w1\<lparr>msg_q := msg_q w1 @ [Result \<lparr>r_task_id = tid, r_status = ''error'', r_inp_path = ip,
                               r_out_path = None, r_before_size = None, r_after_size = None,
                               r_thumb = None, r_error = Some e\<rparr>]\<rparr>) \<or>
          (\<exists>bs sp as th w1. encode_and_write E ip od q rf nw nh fmt pm w = (Inr (bs, sp, as), w1) \<and>
            make_thumb E sp w1 = (Inr th, w1) \<and>
            w' = w1\<lparr>msg_q := msg_q w1 @ [Result \<lparr>r_task_id = tid, r_status = ''done'', r_inp_path = ip,
                        r_out_path = Some sp, r_before_size = Some bs,
                        r_after_size = Some as, r_thumb = Some th,
                        r_error = None\<rparr>]\<rparr>))"
  using assms unfolding process_single_file_task_def
  apply (elim try_except_E)
   apply (auto dest!: try_body_D simp: msg_q_put_def)
  done

lemma task_calls_planned:
  "task_calls E tid ip od q rf nw nh fmt pm w = [] \<or>
   (\<exists>img0. source_image w ip = Some img0 \<and>
      prefix (task_calls E tid ip od q rf nw nh fmt pm w)
        (planned_calls (w_fs w) ip od q rf nw nh fmt pm img0))"
proof -
  obtain r w' where run: "process_single_file_task E tid ip od q rf nw nh fmt pm w = (r, w')"
    by (cases "process_single_file_task E tid ip od q rf nw nh fmt pm w")
  from process_single_file_task_D [OF run]
  obtain r1 w1 where enc: "encode_and_write E ip od q rf nw nh fmt pm w = (r1, w1)"
    and calls: "w_calls w' = w_calls w1"
    by auto
  from encode_and_write_calls [OF enc] calls run show ?thesis
    by (auto simp: task_calls_def)
qed

lemma task_call_planned:
  assumes "c \<in> set (task_calls E tid ip od q rf nw nh fmt pm w)"
  shows "\<exists>img0. source_image w ip = Some img0 \<and>
           c \<in> set (planned_calls (w_fs w) ip od q rf nw nh fmt pm img0)"
  using assms task_calls_planned [of E tid ip od q rf nw nh fmt pm w]
  by (auto dest: set_mono_prefix)

section \<open>The worker always reports, and reports once\<close>

text \<open>
  C2. Whatever the libraries do (every choice of faults, of the encoder and of the
  thumbnail routine) and whatever the task, \<open>process_single_file_task\<close> returns normally
  (no exception leaves it) and has put exactly one message on the queue, behind the
  messages that were there: a result with the task's identifier and input path, which is
  an \<open>error\<close> carrying the message of the exception raised in the body, or a \<open>done\<close>
  without an error message when the body got as far as the written output.
\<close>

theorem process_single_file_task_reports_once:
  "\<exists>w' m. process_single_file_task E tid ip od q rf nw nh fmt pm w = (Inr (), w') \<and>
     msg_q w' = msg_q w @ [Result m] \<and> r_task_id m = tid \<and> r_inp_path m = ip \<and>
     ((\<exists>e w1. encode_and_write E ip od q rf nw nh fmt pm w = (Inl e, w1) \<and>
         r_status m = ''error'' \<and> r_error m = Some e) \<or>
      (\<exists>v w1. encode_and_write E ip od q rf nw nh fmt pm w = (Inr v, w1) \<and>
         r_status m = ''done'' \<and> r_error m = None))"
proof -
  obtain r w' where run: "process_single_file_task E tid ip od q rf nw nh fmt pm w = (r, w')"
    by (cases "process_single_file_task E tid ip od q rf nw nh fmt pm w")
  from process_single_file_task_D [OF run] show ?thesis
  proof (elim conjE disjE exE)
    fix e w1
    assume r: "r = Inr ()"
      and enc: "encode_and_write E ip od q rf nw nh fmt pm w = (Inl e, w1)"
      and w': "w' = w1\<lparr>msg_q := msg_q w1 @ [Result \<lparr>r_task_id = tid, r_status = ''error'',
                 r_inp_path = ip, r_out_path = None, r_before_size = None, r_after_size = None,
                 r_thumb = None, r_error = Some e\<rparr>]\<rparr>"
    from encode_and_write_calls [OF enc] have "msg_q w1 = msg_q w" by simp
    with run r enc w' show ?thesis by auto
  next
    fix bs sp as th w1
    assume r: "r = Inr ()"
      and enc: "encode_and_write E ip od q rf nw nh fmt pm w = (Inr (bs, sp, as), w1)"
      and w': "w' = w1\<lparr>msg_q := msg_q w1 @ [Result \<lparr>r_task_id = tid, r_status = ''done'',
                 r_inp_path = ip, r_out_path = Some sp, r_before_size = Some bs,
                 r_after_size = Some as, r_thumb = Some th, r_error = None\<rparr>]\<rparr>"
    from encode_and_write_calls [OF enc] have "msg_q w1 = msg_q w" by simp
    with run r enc w' show ?thesis by auto
  qed
qed

section \<open>Calls of a task and their arguments\<close>

lemma save_in_planned:
  "Call_save img p kw \<in> set (planned_calls fs ip od q rf nw nh fmt pm img0) \<Longrightarrow>
     kw = kwargs_for fmt ip q pm img0 \<and>
     img = converted kw (resized rf nw nh img0) \<and>
     p = save_path_for fs od fmt ip"
  by (auto simp: planned_calls_def resize_calls_def convert_calls_def split: option.splits if_splits)

lemma resize_in_planned:
  "Call_resize img t \<in> set (planned_calls fs ip od q rf nw nh fmt pm img0) \<Longrightarrow>
     img = img0 \<and> resize_target rf nw nh (im_size img0) = Some t"
  by (auto simp: planned_calls_def resize_calls_def convert_calls_def split: option.splits if_splits)

lemma convert_in_planned:
  "Call_convert img m \<in> set (planned_calls fs ip od q rf nw nh fmt pm img0) \<Longrightarrow>
     img = resized rf nw nh img0 \<and> m = ''RGB'' \<and> wants_rgb (kwargs_for fmt ip q pm img0) img"
  by (auto simp: planned_calls_def resize_calls_def convert_calls_def split: option.splits if_splits)

section \<open>The keyword arguments\<close>

lemma upper_char_cases:
  "upper_char c = CHR ''J'' \<Longrightarrow> lower_char c = CHR ''j''"
  "upper_char c = CHR ''P'' \<Longrightarrow> lower_char c = CHR ''p''"
  "upper_char c = CHR ''E'' \<Longrightarrow> lower_char c = CHR ''e''"
  "upper_char c = CHR ''G'' \<Longrightarrow> lower_char c = CHR ''g''"
  "upper_char c = CHR ''W'' \<Longrightarrow> lower_char c = CHR ''w''"
  "upper_char c = CHR ''B'' \<Longrightarrow> lower_char c = CHR ''b''"
  by (auto simp: upper_char_def lower_char_def ascii_upper_def ascii_lower_def split: if_splits)

lemma upper_JPEG: "upper s = ''JPEG'' \<Longrightarrow> lower s = ''jpeg''"
  by (auto simp: upper_def lower_def upper_char_cases)

lemma upper_WEBP: "upper s = ''WEBP'' \<Longrightarrow> lower s = ''webp''"
  by (auto simp: upper_def lower_def upper_char_cases)

lemma kwargs_optimize: "kwargs_for fmt ip q pm img0 ''optimize'' = Some (PBool True)"
  by (simp add: kwargs_for_def build_save_kwargs_def Let_def split: option.splits)

lemma kwargs_quality:
  "kwargs_for fmt ip q pm img0 ''quality'' =
     (if spec_target_family fmt ip \<in> {JPEG_family, WEBP_family} \<and>
         \<not> (fmt = ''Same as input'' \<and>
            lower (snd (splitext (basename ip))) \<in> set [''.jpe'', ''.jfif''])
      then Some (PInt q) else None)"
proof (cases "fmt = ''Same as input''")
  case True
  then show ?thesis
    by (auto simp: kwargs_for_def build_save_kwargs_def Let_def target_for_def target_of_def
          spec_target_family_def pil_family_of_ext_def split: option.splits)
next
  case False
  then show ?thesis
    by (auto simp: kwargs_for_def build_save_kwargs_def Let_def target_for_def target_of_def
          spec_target_family_def family_of_tag_def dest: upper_JPEG upper_WEBP split: option.splits)
qed


section \<open>Sample runs\<close>

lemmas prog_defs = returnE_def raiseE_def bindE_def try_except_def faulty_def logcall_def msg_q_put_def

lemmas lib_defs = os_getsize_def Image_open_def Image_resize_def Image_convert_def Image_save_def Image_thumbnail_def

lemmas string_defs = basename_def rfind_def splitext_def lower_def lower_char_def upper_def upper_char_def
  ascii_upper_def ascii_lower_def path_join_def

lemmas stage_defs = process_single_file_task_def try_body_def encode_and_write_def make_thumb_def thumb_try_def
  resize_step_def resize_target_def truthy_def if_else_def target_of_def unique_path_def
  ensure_unique_path_def ensure_unique_loop.simps path_exists_def build_save_kwargs_def
  convert_step_def get_format_def THUMBNAIL_SIZE_def get_exif_bytes_def

lemmas plan_defs = kwargs_for_def target_for_def save_path_for_def resized_def converted_def
  wants_rgb_def resize_calls_def convert_calls_def planned_calls_def

lemma run_jpg:
  "task_calls E_ok 0 ''in/photo.png'' ''out'' 70 ''Custom Size'' (Some 100) None ''jpg'' True w_in =
     [Call_resize img_src (100, 300),
      Call_convert (img_src\<lparr>im_size := (100, 300)\<rparr>) ''RGB'',
      Call_save (img_src\<lparr>im_size := (100, 300), im_mode := ''RGB''\<rparr>) ''out/photo.jpg''
        (kwargs_for ''jpg'' ''in/photo.png'' 70 True img_src)]"
  by (simp cong: prod.case_cong_weak add: task_calls_def stage_defs prog_defs lib_defs string_defs
        plan_defs Let_def E_ok_def w_in_def fs_in_def img_src_def)

section \<open>Resizing\<close>

text \<open>
  C6. In a task whose resize mode is not \<open>Original\<close> and whose source decodes to \<open>img0\<close>,
  with the width given as \<open>v\<close> and the height absent: every call of \<open>img.resize\<close> the task
  makes is on \<open>img0\<close> with the target \<open>(v, height of img0)\<close>, and every image handed to
  \<open>img.save\<close> has the height of \<open>img0\<close> and, when \<open>v\<close> is not 0, the width \<open>v\<close>. The same
  with the roles of width and height exchanged. The missing axis is the source's, not an
  aspect-scaled value.
\<close>

theorem custom_resize_keeps_unspecified_axis:
  assumes "rf \<noteq> ''Original''" and "source_image w ip = Some img0"
  shows "(nw = Some v \<and> nh = None \<longrightarrow>
            (\<forall>img t. Call_resize img t \<in> set (task_calls E tid ip od q rf nw nh fmt pm w) \<longrightarrow>
               img = img0 \<and> t = (v, snd (im_size img0))) \<and>
            (\<forall>img p kw. Call_save img p kw \<in> set (task_calls E tid ip od q rf nw nh fmt pm w) \<longrightarrow>
               snd (im_size img) = snd (im_size img0) \<and> (v \<noteq> 0 \<longrightarrow> fst (im_size img) = v))) \<and>
         (nw = None \<and> nh = Some v \<longrightarrow>
            (\<forall>img t. Call_resize img t \<in> set (task_calls E tid ip od q rf nw nh fmt pm w) \<longrightarrow>
               img = img0 \<and> t = (fst (im_size img0), v)) \<and>
            (\<forall>img p kw. Call_save img p kw \<in> set (task_calls E tid ip od q rf nw nh fmt pm w) \<longrightarrow>
               fst (im_size img) = fst (im_size img0) \<and> (v \<noteq> 0 \<longrightarrow> snd (im_size img) = v)))"
proof -
  have planned: "c \<in> set (planned_calls (w_fs w) ip od q rf nw nh fmt pm img0)"
    if "c \<in> set (task_calls E tid ip od q rf nw nh fmt pm w)" for c
    using task_call_planned [OF that] assms(2) by simp
  have w_case: "resize_target rf (Some v) None (im_size img0) = Some t \<Longrightarrow> t = (v, snd (im_size img0))" for t
    by (auto simp: resize_target_def truthy_def if_else_def split_beta split: if_splits)
  have h_case: "resize_target rf None (Some v) (im_size img0) = Some t \<Longrightarrow> t = (fst (im_size img0), v)" for t
    by (auto simp: resize_target_def truthy_def if_else_def split_beta split: if_splits)
  have w_img: "snd (im_size (converted kw (resized rf (Some v) None img0))) = snd (im_size img0) \<and>
      (v \<noteq> 0 \<longrightarrow> fst (im_size (converted kw (resized rf (Some v) None img0))) = v)" for kw
    using assms(1)
    by (auto simp: converted_def resized_def resize_target_def truthy_def if_else_def split_beta)
  have h_img: "fst (im_size (converted kw (resized rf None (Some v) img0))) = fst (im_size img0) \<and>
      (v \<noteq> 0 \<longrightarrow> snd (im_size (converted kw (resized rf None (Some v) img0))) = v)" for kw
    using assms(1)
    by (auto simp: converted_def resized_def resize_target_def truthy_def if_else_def split_beta)
  show ?thesis
  proof (intro conjI impI allI)
    fix img t
    assume a: "nw = Some v \<and> nh = None"
      and b: "Call_resize img t \<in> set (task_calls E tid ip od q rf nw nh fmt pm w)"
    from resize_in_planned [OF planned [OF b]]
    have i: "img = img0" and rt: "resize_target rf nw nh (im_size img0) = Some t" by simp_all
    show "img = img0" by (rule i)
    from rt a show "t = (v, snd (im_size img0))" by (simp add: w_case)
  next
    fix img p kw
    assume a: "nw = Some v \<and> nh = None"
      and b: "Call_save img p kw \<in> set (task_calls E tid ip od q rf nw nh fmt pm w)"
    from save_in_planned [OF planned [OF b]] a w_img [of kw]
    show "snd (im_size img) = snd (im_size img0)" by simp
    assume "v \<noteq> 0"
    with save_in_planned [OF planned [OF b]] a w_img [of kw]
    show "fst (im_size img) = v" by simp
  next
    fix img t
    assume a: "nw = None \<and> nh = Some v"
      and b: "Call_resize img t \<in> set (task_calls E tid ip od q rf nw nh fmt pm w)"
    from resize_in_planned [OF planned [OF b]]
    have i: "img = img0" and rt: "resize_target rf nw nh (im_size img0) = Some t" by simp_all
    show "img = img0" by (rule i)
    from rt a show "t = (fst (im_size img0), v)" by (simp add: h_case)
  next
    fix img p kw
    assume a: "nw = None \<and> nh = Some v"
      and b: "Call_save img p kw \<in> set (task_calls E tid ip od q rf nw nh fmt pm w)"
    from save_in_planned [OF planned [OF b]] a h_img [of kw]
    show "fst (im_size img) = fst (im_size img0)" by simp
    assume "v \<noteq> 0"
    with save_in_planned [OF planned [OF b]] a h_img [of kw]
    show "snd (im_size img) = v" by simp
  qed
qed

lemma source_photo: "source_image w_in ''in/photo.png'' = Some img_src"
  by (simp add: source_image_def w_in_def fs_in_def)

theorem custom_resize_keeps_unspecified_axis_witness:
  "''Custom Size'' \<noteq> ''Original'' \<and> source_image w_in ''in/photo.png'' = Some img_src \<and>
   im_size img_src = (200, 300) \<and>
   Call_resize img_src (100, 300)
     \<in> set (task_calls E_ok 0 ''in/photo.png'' ''out'' 70 ''Custom Size'' (Some 100) None ''jpg'' True w_in) \<and>
   Call_save (img_src\<lparr>im_size := (100, 300), im_mode := ''RGB''\<rparr>) ''out/photo.jpg''
       (kwargs_for ''jpg'' ''in/photo.png'' 70 True img_src)
     \<in> set (task_calls E_ok 0 ''in/photo.png'' ''out'' 70 ''Custom Size'' (Some 100) None ''jpg'' True w_in) \<and>
   snd (im_size (img_src\<lparr>im_size := (100, 300), im_mode := ''RGB''\<rparr>)) = snd (im_size img_src) \<and>
   fst (im_size (img_src\<lparr>im_size := (100, 300), im_mode := ''RGB''\<rparr>)) = 100"
proof -
  have ne: "''Custom Size'' \<noteq> ''Original''" by simp
  note t = custom_resize_keeps_unspecified_axis [OF ne source_photo,
      of "Some 100" 100 None E_ok 0 "''out''" 70 "''jpg''" True]
  have sz: "im_size img_src = (200, 300)" by (simp add: img_src_def)
  have r: "Call_resize img_src (100, 300)
     \<in> set (task_calls E_ok 0 ''in/photo.png'' ''out'' 70 ''Custom Size'' (Some 100) None ''jpg'' True w_in)"
    by (simp add: run_jpg)
  have s: "Call_save (img_src\<lparr>im_size := (100, 300), im_mode := ''RGB''\<rparr>) ''out/photo.jpg''
       (kwargs_for ''jpg'' ''in/photo.png'' 70 True img_src)
     \<in> set (task_calls E_ok 0 ''in/photo.png'' ''out'' 70 ''Custom Size'' (Some 100) None ''jpg'' True w_in)"
    by (simp add: run_jpg)
  from t have "\<forall>img p kw. Call_save img p kw
       \<in> set (task_calls E_ok 0 ''in/photo.png'' ''out'' 70 ''Custom Size'' (Some 100) None ''jpg'' True w_in)
      \<longrightarrow> snd (im_size img) = snd (im_size img_src) \<and> fst (im_size img) = 100"
    by simp
  from this [rule_format, OF s] ne source_photo sz r s show ?thesis by simp
qed

section \<open>Encode parameters\<close>

text \<open>
  Every call of \<open>img.save\<close> a task makes carries \<open>optimize=True\<close>. It carries \<open>quality\<close>,
  with the task's quality value, when the target format is in the JPEG or the WEBP family,
  except with \<open>Same as input\<close> on an input named \<open>.jpe\<close> or \<open>.jfif\<close>; otherwise it carries
  no \<open>quality\<close>.
\<close>

lemma save_kwargs_optimize_and_quality_cases:
  assumes "Call_save img p kw \<in> set (task_calls E tid ip od q rf nw nh fmt pm w)"
  shows "kw ''optimize'' = Some (PBool True) \<and>
         kw ''quality'' =
           (if spec_target_family fmt ip \<in> {JPEG_family, WEBP_family} \<and>
               \<not> (fmt = ''Same as input'' \<and>
                  lower (snd (splitext (basename ip))) \<in> set [''.jpe'', ''.jfif''])
            then Some (PInt q) else None)"
proof -
  from task_call_planned [OF assms] obtain img0
    where "Call_save img p kw \<in> set (planned_calls (w_fs w) ip od q rf nw nh fmt pm img0)"
    by blast
  then have kw: "kw = kwargs_for fmt ip q pm img0"
    by (simp add: save_in_planned)
  show ?thesis
    unfolding kw using kwargs_optimize kwargs_quality by blast
qed


section \<open>Metadata\<close>



section \<open>A zero axis\<close>

lemma resize_target_zero_w: "resize_target rf (Some 0) nh = resize_target rf None nh"
  by (simp add: resize_target_def truthy_def if_else_def fun_eq_iff)

lemma resize_target_zero_h: "resize_target rf nw (Some 0) = resize_target rf nw None"
  by (simp add: resize_target_def truthy_def if_else_def fun_eq_iff)

lemma resize_target_Some:
  assumes "resize_target rf nw nh src = Some t"
  shows "(truthy nw \<or> truthy nh) \<and> t = (if_else nw (fst src), if_else nh (snd src))"
  using assms by (auto simp: resize_target_def split_beta split: if_splits)

text \<open>
  C10. A width of 0 makes the worker do exactly what it does with an absent width, and
  likewise for the height. When each axis is 0 or absent the task makes no call of
  \<open>img.resize\<close>. In every call of \<open>img.resize\<close> a task makes, an axis that is 0 or absent
  has the dimension of the image resized, and when that image has positive dimensions
  neither target dimension is 0.
\<close>

theorem zero_axis_treated_as_absent:
  "process_single_file_task E tid ip od q rf (Some 0) nh fmt pm
     = process_single_file_task E tid ip od q rf None nh fmt pm \<and>
   process_single_file_task E tid ip od q rf nw (Some 0) fmt pm
     = process_single_file_task E tid ip od q rf nw None fmt pm \<and>
   (nw \<in> {None, Some 0} \<and> nh \<in> {None, Some 0} \<longrightarrow>
      (\<forall>img t. Call_resize img t \<notin> set (task_calls E tid ip od q rf nw nh fmt pm w))) \<and>
   (\<forall>img t. Call_resize img t \<in> set (task_calls E tid ip od q rf nw nh fmt pm w) \<longrightarrow>
      (nw \<in> {None, Some 0} \<longrightarrow> fst t = fst (im_size img)) \<and>
      (nh \<in> {None, Some 0} \<longrightarrow> snd t = snd (im_size img)) \<and>
      (0 < fst (im_size img) \<and> 0 < snd (im_size img) \<longrightarrow> fst t \<noteq> 0 \<and> snd t \<noteq> 0))"
proof (intro conjI allI impI)
  show "process_single_file_task E tid ip od q rf (Some 0) nh fmt pm
          = process_single_file_task E tid ip od q rf None nh fmt pm"
    by (simp add: process_single_file_task_def try_body_def encode_and_write_def resize_step_def
          resize_target_zero_w)
  show "process_single_file_task E tid ip od q rf nw (Some 0) fmt pm
          = process_single_file_task E tid ip od q rf nw None fmt pm"
    by (simp add: process_single_file_task_def try_body_def encode_and_write_def resize_step_def
          resize_target_zero_h)
next
  fix img t
  assume falsy: "nw \<in> {None, Some 0} \<and> nh \<in> {None, Some 0}"
  show "Call_resize img t \<notin> set (task_calls E tid ip od q rf nw nh fmt pm w)"
  proof
    assume "Call_resize img t \<in> set (task_calls E tid ip od q rf nw nh fmt pm w)"
    from task_call_planned [OF this] obtain img0
      where "Call_resize img t \<in> set (planned_calls (w_fs w) ip od q rf nw nh fmt pm img0)"
      by blast
    then have "resize_target rf nw nh (im_size img0) = Some t"
      by (simp add: resize_in_planned)
    then have "truthy nw \<or> truthy nh" by (simp add: resize_target_Some)
    with falsy show False by (auto simp: truthy_def)
  qed
next
  fix img t
  assume mem: "Call_resize img t \<in> set (task_calls E tid ip od q rf nw nh fmt pm w)"
  from task_call_planned [OF mem] obtain img0
    where "Call_resize img t \<in> set (planned_calls (w_fs w) ip od q rf nw nh fmt pm img0)"
    by blast
  then have "img = img0" and "resize_target rf nw nh (im_size img0) = Some t"
    by (simp_all add: resize_in_planned)
  then have t: "t = (if_else nw (fst (im_size img)), if_else nh (snd (im_size img)))"
    by (simp add: resize_target_Some)
  {
    assume "nw \<in> {None, Some 0}"
    with t show "fst t = fst (im_size img)" by (auto simp: if_else_def)
  next
    assume "nh \<in> {None, Some 0}"
    with t show "snd t = snd (im_size img)" by (auto simp: if_else_def)
  next
    assume pos: "0 < fst (im_size img) \<and> 0 < snd (im_size img)"
    with t show "fst t \<noteq> 0" by (auto simp: if_else_def split: option.splits)
    from pos t show "snd t \<noteq> 0" by (auto simp: if_else_def split: option.splits)
  }
qed

lemma run_zero_w:
  "task_calls E_ok 0 ''in/photo.png'' ''out'' 70 ''Custom Size'' (Some 0) (Some 150) ''png'' False w_in =
     [Call_resize img_src (200, 150),
      Call_save (img_src\<lparr>im_size := (200, 150)\<rparr>) ''out/photo.png''
        (kwargs_for ''png'' ''in/photo.png'' 70 False img_src)]"
  by (simp cong: prod.case_cong_weak add: task_calls_def stage_defs prog_defs lib_defs string_defs
        plan_defs Let_def E_ok_def w_in_def fs_in_def img_src_def)

theorem zero_axis_treated_as_absent_witness:
  "Some (0::int) \<in> {None, Some 0} \<and> None \<in> {None, Some (0::int)} \<and>
   (\<forall>img t. Call_resize img t
      \<notin> set (task_calls E_ok 0 ''in/photo.png'' ''out'' 70 ''Custom Size'' (Some 0) None ''png'' False w_in)) \<and>
   Call_resize img_src (200, 150)
      \<in> set (task_calls E_ok 0 ''in/photo.png'' ''out'' 70 ''Custom Size'' (Some 0) (Some 150) ''png'' False w_in) \<and>
   0 < fst (im_size img_src) \<and> 0 < snd (im_size img_src) \<and>
   fst (200::int, 150::int) = fst (im_size img_src) \<and> fst (200::int, 150::int) \<noteq> 0 \<and> snd (200::int, 150::int) \<noteq> 0"
proof -
  note t = zero_axis_treated_as_absent [of E_ok 0 "''in/photo.png''" "''out''" 70 "''Custom Size''" _ "''png''" False]
  have a: "\<forall>img t. Call_resize img t
      \<notin> set (task_calls E_ok 0 ''in/photo.png'' ''out'' 70 ''Custom Size'' (Some 0) None ''png'' False w_in)"
    using t [of None "Some 0" w_in] by simp
  have b: "Call_resize img_src (200, 150)
      \<in> set (task_calls E_ok 0 ''in/photo.png'' ''out'' 70 ''Custom Size'' (Some 0) (Some 150) ''png'' False w_in)"
    by (simp add: run_zero_w)
  have pos: "0 < fst (im_size img_src) \<and> 0 < snd (im_size img_src)"
    by (simp add: img_src_def)
  from t [of "Some 150" "Some 0" w_in] b pos
  have "fst (200::int, 150::int) = fst (im_size img_src) \<and> fst (200::int, 150::int) \<noteq> 0 \<and> snd (200::int, 150::int) \<noteq> 0"
    by blast
  with a b pos show ?thesis by simp
qed

section \<open>Sample runs with the string functions evaluated beforehand\<close>

lemma ensure_unique_path_free: "\<not> path_exists fs p \<Longrightarrow> ensure_unique_path fs p = p"
  using ensure_unique_loop_spec [of fs "fst (splitext p)" "snd (splitext p)" 1 p]
  by (simp add: ensure_unique_path_def split_beta)

lemmas run_defs = process_single_file_task_def try_body_def encode_and_write_def make_thumb_def
  thumb_try_def resize_step_def resize_target_def truthy_def if_else_def target_of_def
  unique_path_def build_save_kwargs_def convert_step_def get_format_def THUMBNAIL_SIZE_def
  get_exif_bytes_def path_join_def path_exists_def ensure_unique_path_free
  kwargs_for_def target_for_def save_path_for_def resized_def converted_def
  wants_rgb_def resize_calls_def convert_calls_def planned_calls_def Let_def

section \<open>Mode conversion before a JPEG is written\<close>

lemma scan_name: "splitext (basename ''in/scan.jpg'') = (''scan'', ''.jpg'')"
  by (simp add: basename_def splitext_def rfind_def)

lemma scan_out_ext: "splitext ''out/scan.jpg'' = (''out/scan'', ''.jpg'')"
  by (simp add: splitext_def rfind_def)

lemma lower_dot_jpg: "lower ''.jpg'' = ''.jpg''"
  by (simp add: lower_def lower_char_def ascii_upper_def ascii_lower_def)

lemma upper_empty: "upper [] = []"
  by (simp add: upper_def)

lemma run_scan_calls:
  "task_calls E_pil 0 ''in/scan.jpg'' ''out'' 70 ''Original'' None None ''Same as input'' True w_scan =
     [Call_save img_scan ''out/scan.jpg''
        (kwargs_for ''Same as input'' ''in/scan.jpg'' 70 True img_scan)]"
  by (simp cong: prod.case_cong_weak add: task_calls_def run_defs prog_defs lib_defs
        scan_name scan_out_ext lower_dot_jpg upper_empty
        E_pil_def writes_jpeg_def pil_family_of_ext_def w_scan_def img_scan_def)

lemma run_scan_msg:
  "msg_q (snd (process_single_file_task E_pil 0 ''in/scan.jpg'' ''out'' 70 ''Original'' None None
                 ''Same as input'' True w_scan)) =
     [Result \<lparr>r_task_id = 0, r_status = ''error'', r_inp_path = ''in/scan.jpg'',
              r_out_path = None, r_before_size = None, r_after_size = None,
              r_thumb = None, r_error = Some ''cannot write mode RGBA as JPEG''\<rparr>]"
  by (simp cong: prod.case_cong_weak add: run_defs prog_defs lib_defs
        scan_name scan_out_ext lower_dot_jpg upper_empty
        E_pil_def writes_jpeg_def pil_family_of_ext_def w_scan_def img_scan_def)

text \<open>
  C5 does not hold of the code. With \<open>Same as input\<close> and an input \<open>in/scan.jpg\<close> that
  decodes to an RGBA image, the target format is in the JPEG family, yet the task makes
  no call of \<open>img.convert\<close>: the only PIL call is \<open>img.save\<close> on the RGBA image itself, the
  encoder raises, and the task reports an error. The test before the conversion looks at
  \<open>save_kwargs["format"]\<close> only, which is absent with \<open>Same as input\<close>, while the test for
  \<open>quality\<close> two statements earlier looks at the extension as well.
\<close>

theorem same_as_input_jpeg_rgba_not_converted:
  "source_image w_scan ''in/scan.jpg'' = Some img_scan \<and> im_mode img_scan = ''RGBA'' \<and>
   spec_target_family ''Same as input'' ''in/scan.jpg'' = JPEG_family \<and>
   task_calls E_pil 0 ''in/scan.jpg'' ''out'' 70 ''Original'' None None ''Same as input'' True w_scan =
     [Call_save img_scan ''out/scan.jpg''
        (kwargs_for ''Same as input'' ''in/scan.jpg'' 70 True img_scan)] \<and>
   msg_q (snd (process_single_file_task E_pil 0 ''in/scan.jpg'' ''out'' 70 ''Original'' None None
                 ''Same as input'' True w_scan)) =
     [Result \<lparr>r_task_id = 0, r_status = ''error'', r_inp_path = ''in/scan.jpg'',
              r_out_path = None, r_before_size = None, r_after_size = None,
              r_thumb = None, r_error = Some ''cannot write mode RGBA as JPEG''\<rparr>]"
proof -
  have "source_image w_scan ''in/scan.jpg'' = Some img_scan"
    by (simp add: source_image_def w_scan_def)
  moreover have "im_mode img_scan = ''RGBA''"
    by (simp add: img_scan_def)
  moreover have "spec_target_family ''Same as input'' ''in/scan.jpg'' = JPEG_family"
    by (simp add: spec_target_family_def pil_family_of_ext_def scan_name lower_dot_jpg)
  ultimately show ?thesis
    by (simp add: run_scan_calls run_scan_msg)
qed

text \<open>
  With \<open>jpg\<close> or \<open>jpeg\<close> selected explicitly the conversion is made: no image in mode RGBA
  or P reaches \<open>img.save\<close>.
\<close>

lemma lower_jpg_not_same: "lower fmt \<in> set [''jpg'', ''jpeg''] \<Longrightarrow> fmt \<noteq> ''Same as input''"
  by (auto simp: lower_def lower_char_def ascii_upper_def ascii_lower_def)

lemma explicit_jpeg_saves_opaque:
  assumes "lower fmt \<in> set [''jpg'', ''jpeg'']"
      and "Call_save img p kw \<in> set (task_calls E tid ip od q rf nw nh fmt pm w)"
  shows "im_mode img \<notin> set [''RGBA'', ''P'']"
proof -
  from task_call_planned [OF assms(2)] obtain img0
    where "Call_save img p kw \<in> set (planned_calls (w_fs w) ip od q rf nw nh fmt pm img0)"
    by blast
  then have kw: "kw = kwargs_for fmt ip q pm img0"
    and img: "img = converted kw (resized rf nw nh img0)"
    by (simp_all add: save_in_planned)
  have "kw ''format'' = Some (PStr ''JPEG'')"
    using assms(1) lower_jpg_not_same [OF assms(1)]
    by (auto simp: kw kwargs_for_def build_save_kwargs_def Let_def target_for_def target_of_def
          split: option.splits)
  then have "upper (get_format kw) = ''JPEG''"
    by (simp add: get_format_def upper_def upper_char_def ascii_upper_def ascii_lower_def)
  then show ?thesis
    unfolding img by (auto simp: converted_def wants_rgb_def)
qed

section \<open>Quality when JPEG is inferred from the extension\<close>

lemma jfif_name: "splitext (basename ''in/photo.jfif'') = (''photo'', ''.jfif'')"
  by (simp add: basename_def splitext_def rfind_def)

lemma jfif_out_ext: "splitext ''out/photo.jfif'' = (''out/photo'', ''.jfif'')"
  by (simp add: splitext_def rfind_def)

lemma lower_dot_jfif: "lower ''.jfif'' = ''.jfif''"
  by (simp add: lower_def lower_char_def ascii_upper_def ascii_lower_def)

lemma run_jfif:
  "task_calls E_pil 0 ''in/photo.jfif'' ''out'' 70 ''Original'' None None ''Same as input'' False w_jfif =
     [Call_save img_jfif ''out/photo.jfif''
        (kwargs_for ''Same as input'' ''in/photo.jfif'' 70 False img_jfif)]"
  by (simp cong: prod.case_cong_weak add: task_calls_def run_defs prog_defs lib_defs
        jfif_name jfif_out_ext lower_dot_jfif upper_empty
        E_pil_def writes_jpeg_def pil_family_of_ext_def w_jfif_def img_jfif_def)

text \<open>
  C7 does not hold of the code. With \<open>Same as input\<close> and an input \<open>in/photo.jfif\<close> the
  file written is \<open>out/photo.jfif\<close>, which the encoder writes as JPEG: the target format
  is in the JPEG family. Yet the one call of \<open>img.save\<close> the task makes carries
  \<open>optimize\<close> and no \<open>quality\<close>: the test before \<open>save_kwargs["quality"] = quality\<close> lists
  the extensions \<open>.jpg\<close>, \<open>.jpeg\<close> and \<open>.webp\<close> only.
\<close>

theorem same_as_input_jfif_without_quality:
  "source_image w_jfif ''in/photo.jfif'' = Some img_jfif \<and>
   spec_target_family ''Same as input'' ''in/photo.jfif'' = JPEG_family \<and>
   task_calls E_pil 0 ''in/photo.jfif'' ''out'' 70 ''Original'' None None ''Same as input'' False w_jfif =
     [Call_save img_jfif ''out/photo.jfif''
        (kwargs_for ''Same as input'' ''in/photo.jfif'' 70 False img_jfif)] \<and>
   writes_jpeg ''out/photo.jfif'' (kwargs_for ''Same as input'' ''in/photo.jfif'' 70 False img_jfif) \<and>
   kwargs_for ''Same as input'' ''in/photo.jfif'' 70 False img_jfif ''optimize'' = Some (PBool True) \<and>
   kwargs_for ''Same as input'' ''in/photo.jfif'' 70 False img_jfif ''quality'' = None"
proof -
  have src: "source_image w_jfif ''in/photo.jfif'' = Some img_jfif"
    by (simp add: source_image_def w_jfif_def)
  have fam: "spec_target_family ''Same as input'' ''in/photo.jfif'' = JPEG_family"
    by (simp add: spec_target_family_def pil_family_of_ext_def jfif_name lower_dot_jfif)
  have q: "kwargs_for ''Same as input'' ''in/photo.jfif'' 70 False img_jfif ''quality'' = None"
    by (simp add: kwargs_quality jfif_name lower_dot_jfif)
  have fmt: "kwargs_for ''Same as input'' ''in/photo.jfif'' 70 False img_jfif ''format'' = None"
    by (simp add: kwargs_for_def build_save_kwargs_def target_for_def target_of_def Let_def
          jfif_name lower_dot_jfif)
  have wj: "writes_jpeg ''out/photo.jfif'' (kwargs_for ''Same as input'' ''in/photo.jfif'' 70 False img_jfif)"
    by (simp add: writes_jpeg_def fmt pil_family_of_ext_def jfif_out_ext lower_dot_jfif)
  from src fam q wj show ?thesis
    by (simp add: run_jfif kwargs_optimize)
qed

section \<open>The thumbnail step\<close>

text \<open>
  C9. When the body of the worker has got as far as the written output and its size
  (\<open>encode_and_write\<close> returned) and the inner \<open>try\<close> of the thumbnail step raises, for
  whatever reason, the worker returns normally and puts one \<open>done\<close> result with the output
  path, both sizes and, as bitmap, the solid-colour \<open>Image.new("RGB", (64, 48),
  (220, 220, 220))\<close>.
\<close>

theorem thumbnail_failure_gives_placeholder:
  assumes "encode_and_write E ip od q rf nw nh fmt pm w = (Inr (bs, sp, as), w1)"
      and "thumb_try E sp w1 = (Inl e, w2)"
  shows "process_single_file_task E tid ip od q rf nw nh fmt pm w =
           (Inr (), w1\<lparr>msg_q := msg_q w1 @
              [Result \<lparr>r_task_id = tid, r_status = ''done'', r_inp_path = ip,
                       r_out_path = Some sp, r_before_size = Some bs, r_after_size = Some as,
                       r_thumb = Some (Image_new ''RGB'' (64, 48) (220, 220, 220)),
                       r_error = None\<rparr>]\<rparr>)"
proof -
  from thumb_try_D [OF assms(2)] have "w2 = w1" .
  with assms(2) have "make_thumb E sp w1 = (Inr (Image_new ''RGB'' (64, 48) (220, 220, 220)), w1)"
    by (simp add: make_thumb_def try_except_def returnE_def THUMBNAIL_SIZE_def)
  with assms(1) show ?thesis
    by (simp add: process_single_file_task_def try_body_def try_except_def bindE_def msg_q_put_def)
qed

lemma photo_name: "splitext (basename ''in/photo.png'') = (''photo'', ''.png'')"
  by (simp add: basename_def splitext_def rfind_def)

lemma lower_dot_png: "lower ''.png'' = ''.png''"
  by (simp add: lower_def lower_char_def ascii_upper_def ascii_lower_def)

lemma lower_png: "lower ''png'' = ''png''"
  by (simp add: lower_def lower_char_def ascii_upper_def ascii_lower_def)

lemma upper_png: "upper ''png'' = ''PNG''"
  by (simp add: upper_def upper_char_def ascii_upper_def ascii_lower_def)

lemma upper_PNG: "upper ''PNG'' = ''PNG''"
  by (simp add: upper_def upper_char_def ascii_upper_def ascii_lower_def)

lemma run_written:
  "encode_and_write E_thumb_fails ''in/photo.png'' ''out'' 70 ''Original'' None None ''png'' False w_in
     = (Inr (5000, ''out/photo.png'', 1234), w_written)"
  by (simp cong: prod.case_cong_weak add: run_defs prog_defs lib_defs
        photo_name lower_dot_png lower_png upper_png upper_PNG
        E_thumb_fails_def w_in_def w_written_def fs_in_def img_src_def)

lemma run_thumb_fails:
  "thumb_try E_thumb_fails ''out/photo.png'' w_written = (Inl ''out of memory'', w_written)"
  by (simp cong: prod.case_cong_weak add: thumb_try_def prog_defs lib_defs
        E_thumb_fails_def w_written_def)

theorem thumbnail_failure_gives_placeholder_witness:
  "encode_and_write E_thumb_fails ''in/photo.png'' ''out'' 70 ''Original'' None None ''png'' False w_in
     = (Inr (5000, ''out/photo.png'', 1234), w_written) \<and>
   thumb_try E_thumb_fails ''out/photo.png'' w_written = (Inl ''out of memory'', w_written) \<and>
   process_single_file_task E_thumb_fails 7 ''in/photo.png'' ''out'' 70 ''Original'' None None ''png'' False w_in =
     (Inr (), w_written\<lparr>msg_q := msg_q w_written @
        [Result \<lparr>r_task_id = 7, r_status = ''done'', r_inp_path = ''in/photo.png'',
                 r_out_path = Some ''out/photo.png'', r_before_size = Some 5000,
                 r_after_size = Some 1234,
                 r_thumb = Some (Image_new ''RGB'' (64, 48) (220, 220, 220)),
                 r_error = None\<rparr>]\<rparr>)"
  using thumbnail_failure_gives_placeholder [OF run_written run_thumb_fails, of 7]
    run_written run_thumb_fails
  by simp

section \<open>Runs of a batch\<close>

lemma pool_step_next: "pool_step E cfg s s' \<longleftrightarrow> s' \<in> set (pool_next E cfg s)"
proof
  assume "pool_step E cfg s s'"
  then show "s' \<in> set (pool_next E cfg s)"
  proof (cases rule: pool_step.cases)
    case (start t ts)
    then show ?thesis by (simp add: pool_next_def)
  next
    case (finish t r w')
    then have "s' = s\<lparr>running := remove1 t (running s),
                 raised := (raised s \<or> isl (fst (submitted_call E cfg t (p_world s)))),
                 p_world := snd (submitted_call E cfg t (p_world s))\<rparr>"
      by simp
    with finish(2) show ?thesis
      unfolding pool_next_def by (auto intro!: image_eqI [where x = t])
  next
    case all_done
    then show ?thesis by (simp add: pool_next_def)
  qed
next
  assume a: "s' \<in> set (pool_next E cfg s)"
  then have "(\<exists>t ts. pending s = t # ts \<and> length (running s) < WORKER_THREADS \<and>
                s' = s\<lparr>pending := ts, running := running s @ [t]\<rparr>) \<or>
             (\<exists>t. t \<in> set (running s) \<and>
                s' = s\<lparr>running := remove1 t (running s),
                       raised := (raised s \<or> isl (fst (submitted_call E cfg t (p_world s)))),
                       p_world := snd (submitted_call E cfg t (p_world s))\<rparr>) \<or>
             (pending s = [] \<and> running s = [] \<and> \<not> raised s \<and> \<not> signalled s \<and>
                s' = s\<lparr>signalled := True,
                       p_world := (p_world s)\<lparr>msg_q := msg_q (p_world s) @ [Control ''all_done'']\<rparr>\<rparr>)"
    by (cases "pending s") (auto simp: pool_next_def split: if_splits)
  then show "pool_step E cfg s s'"
  proof (elim disjE exE conjE)
    fix t ts
    assume "pending s = t # ts" "length (running s) < WORKER_THREADS"
      "s' = s\<lparr>pending := ts, running := running s @ [t]\<rparr>"
    then show ?thesis using pool_step.start [of s t ts E cfg] by simp
  next
    fix t
    assume "t \<in> set (running s)"
      "s' = s\<lparr>running := remove1 t (running s),
              raised := (raised s \<or> isl (fst (submitted_call E cfg t (p_world s)))),
              p_world := snd (submitted_call E cfg t (p_world s))\<rparr>"
    then show ?thesis
      using pool_step.finish [of t s E cfg "fst (submitted_call E cfg t (p_world s))"
              "snd (submitted_call E cfg t (p_world s))"]
      by simp
  next
    assume "pending s = []" "running s = []" "\<not> raised s" "\<not> signalled s"
      "s' = s\<lparr>signalled := True,
              p_world := (p_world s)\<lparr>msg_q := msg_q (p_world s) @ [Control ''all_done'']\<rparr>\<rparr>"
    then show ?thesis using pool_step.all_done [of s E cfg] by simp
  qed
qed

lemma submitted_call_D:
  assumes "submitted_call E cfg t w = (r, w')"
  shows "r = Inr () \<and> (\<exists>m. msg_q w' = msg_q w @ [Result m] \<and> r_task_id m = t_idx t)"
proof -
  note run = assms [unfolded submitted_call_def]
  from process_single_file_task_D [OF run] show ?thesis
  proof (elim conjE disjE exE)
    fix e w1
    assume r: "r = Inr ()"
      and enc: "encode_and_write E (t_path t) (s_out_dir cfg) (s_quality cfg) (s_resize_flag cfg)
                  (s_new_w cfg) (s_new_h cfg) (s_out_format cfg) (s_preserve_meta cfg) w = (Inl e, w1)"
      and w': "w' = w1\<lparr>msg_q := msg_q w1 @ [Result \<lparr>r_task_id = t_idx t, r_status = ''error'',
                 r_inp_path = t_path t, r_out_path = None, r_before_size = None, r_after_size = None,
                 r_thumb = None, r_error = Some e\<rparr>]\<rparr>"
    from encode_and_write_calls [OF enc] have "msg_q w1 = msg_q w" by simp
    with r w' show ?thesis by simp
  next
    fix bs sp as th w1
    assume r: "r = Inr ()"
      and enc: "encode_and_write E (t_path t) (s_out_dir cfg) (s_quality cfg) (s_resize_flag cfg)
                  (s_new_w cfg) (s_new_h cfg) (s_out_format cfg) (s_preserve_meta cfg) w
                  = (Inr (bs, sp, as), w1)"
      and w': "w' = w1\<lparr>msg_q := msg_q w1 @ [Result \<lparr>r_task_id = t_idx t, r_status = ''done'',
                 r_inp_path = t_path t, r_out_path = Some sp, r_before_size = Some bs,
                 r_after_size = Some as, r_thumb = Some th, r_error = None\<rparr>]\<rparr>"
    from encode_and_write_calls [OF enc] have "msg_q w1 = msg_q w" by simp
    with r w' show ?thesis by simp
  qed
qed

lemma mset_map_remove1:
  "t \<in> set xs \<Longrightarrow> add_mset (f t) (mset (map f (remove1 t xs))) = mset (map f xs)"
  by (induction xs) auto

lemma pool_inv_init: "pool_inv files w0 (pool_init files w0) []"
  by (simp add: pool_inv_def pool_init_def)

lemma pool_inv_step:
  assumes "pool_step E cfg s s'" and "pool_inv files w0 s rs"
  shows "\<exists>rs'. pool_inv files w0 s' rs'"
  using assms
proof (cases rule: pool_step.cases)
  case (start t ts)
  with assms(2) have "pool_inv files w0 s' rs"
    by (auto simp: pool_inv_def)
  then show ?thesis ..
next
  case (finish t r w')
  from submitted_call_D [OF finish(3)] obtain m
    where r: "r = Inr ()" and q: "msg_q w' = msg_q (p_world s) @ [Result m]" and id: "r_task_id m = t_idx t"
    by blast
  from finish(2) assms(2) have ns: "\<not> signalled s"
    by (auto simp: pool_inv_def)
  have "mset (map r_task_id (rs @ [m])) + mset (map t_idx (pending s @ remove1 t (running s)))
        = mset (map r_task_id rs) + mset (map t_idx (pending s @ running s))"
    using mset_map_remove1 [OF finish(2), of t_idx] id by simp
  with assms(2) finish(1) r q ns have "pool_inv files w0 s' (rs @ [m])"
    by (simp add: pool_inv_def)
  then show ?thesis ..
next
  case all_done
  with assms(2) have "pool_inv files w0 s' rs"
    by (simp add: pool_inv_def)
  then show ?thesis ..
qed

lemma pool_inv_steps:
  assumes "rtranclp (pool_step E cfg) (pool_init files w0) s"
  shows "\<exists>rs. pool_inv files w0 s rs"
  using assms
proof (induction rule: rtranclp_induct)
  case base
  show ?case using pool_inv_init by blast
next
  case (step y z)
  then show ?case using pool_inv_step by blast
qed

lemma pool_progress:
  assumes "pool_inv files w0 s rs" and "\<not> signalled s"
  shows "\<exists>s'. pool_step E cfg s s'"
proof (cases "running s")
  case (Cons t ts)
  obtain r w' where "submitted_call E cfg t (p_world s) = (r, w')"
    by (cases "submitted_call E cfg t (p_world s)")
  with Cons show ?thesis
    using pool_step.finish [of t s E cfg r w'] by auto
next
  case Nil
  show ?thesis
  proof (cases "pending s")
    case (Cons t ts)
    with Nil show ?thesis
      using pool_step.start [of s t ts E cfg] by (auto simp: WORKER_THREADS_def)
  next
    case pn: Nil
    with Nil assms show ?thesis
      using pool_step.all_done [of s E cfg] by (auto simp: pool_inv_def)
  qed
qed

lemma pool_step_decreases:
  assumes "pool_step E cfg s s'"
  shows "pool_measure s' < pool_measure s"
  using assms
proof (cases rule: pool_step.cases)
  case (start t ts)
  then show ?thesis by (simp add: pool_measure_def)
next
  case (finish t r w')
  from finish(2) have "0 < length (running s)"
    by (rule length_pos_if_in_set)
  with finish show ?thesis
    by (simp add: pool_measure_def length_remove1)
next
  case all_done
  then show ?thesis by (simp add: pool_measure_def)
qed

lemma pool_terminates: "wf {(s', s). pool_step E cfg s s'}"
proof (rule wf_subset)
  show "wf (measure pool_measure)" by simp
  show "{(s', s). pool_step E cfg s s'} \<subseteq> measure pool_measure"
    by (auto dest: pool_step_decreases)
qed

text \<open>
  C1. Every run of a batch ends (the step relation is well-founded), and in every state
  a run reaches from the submission of \<open>files\<close>: the queue holds, behind what it held
  before, result messages only, followed by \<open>all_done\<close> exactly when it was signalled and
  then as the last message, once; the identifiers on the results together with those of
  the tasks still pending or running are the submitted identifiers, each as often as
  submitted; once \<open>all_done\<close> is signalled there are exactly as many results as files, with
  exactly the submitted identifiers; the results' identifiers are distinct when the
  submitted ones are; and a state with no further step is one in which \<open>all_done\<close> was
  signalled.
\<close>

theorem batch_results_then_all_done:
  "wf {(s', s). pool_step E cfg s s'} \<and>
   (rtranclp (pool_step E cfg) (pool_init files w0) s \<longrightarrow>
     (\<exists>rs. msg_q (p_world s) =
              msg_q w0 @ map Result rs @ (if signalled s then [Control ''all_done''] else []) \<and>
            mset (map r_task_id rs) + mset (map t_idx (pending s @ running s)) = mset (map t_idx files) \<and>
            (signalled s \<longrightarrow> length rs = length files \<and> mset (map r_task_id rs) = mset (map t_idx files)) \<and>
            (distinct (map t_idx files) \<longrightarrow> distinct (map r_task_id rs)) \<and>
            ((\<forall>s'. \<not> pool_step E cfg s s') \<longrightarrow> signalled s)))"
proof (intro conjI impI)
  show "wf {(s', s). pool_step E cfg s s'}" by (rule pool_terminates)
next
  assume "rtranclp (pool_step E cfg) (pool_init files w0) s"
  from pool_inv_steps [OF this] obtain rs where inv: "pool_inv files w0 s rs" ..
  then have q: "msg_q (p_world s) =
              msg_q w0 @ map Result rs @ (if signalled s then [Control ''all_done''] else [])"
    and m: "mset (map r_task_id rs) + mset (map t_idx (pending s @ running s)) = mset (map t_idx files)"
    and sg: "signalled s \<longrightarrow> pending s = [] \<and> running s = []"
    by (simp_all add: pool_inv_def)
  have full: "mset (map r_task_id rs) = mset (map t_idx files)" if "signalled s"
    using m sg that by simp
  have len: "length rs = length files" if "signalled s"
  proof -
    from full [OF that] have "size (mset (map r_task_id rs)) = size (mset (map t_idx files))"
      by simp
    then show ?thesis by simp
  qed
  have dist: "distinct (map r_task_id rs)" if "distinct (map t_idx files)"
  proof -
    from m have "mset (map r_task_id rs @ map t_idx (pending s @ running s)) = mset (map t_idx files)"
      by simp
    then have "distinct (map r_task_id rs @ map t_idx (pending s @ running s))"
      using that mset_eq_imp_distinct_iff by blast
    then show ?thesis by simp
  qed
  have stuck: "signalled s" if "\<forall>s'. \<not> pool_step E cfg s s'"
    using pool_progress [OF inv] that by blast
  from q m full len dist stuck
  show "\<exists>rs. msg_q (p_world s) =
              msg_q w0 @ map Result rs @ (if signalled s then [Control ''all_done''] else []) \<and>
            mset (map r_task_id rs) + mset (map t_idx (pending s @ running s)) = mset (map t_idx files) \<and>
            (signalled s \<longrightarrow> length rs = length files \<and> mset (map r_task_id rs) = mset (map t_idx files)) \<and>
            (distinct (map t_idx files) \<longrightarrow> distinct (map r_task_id rs)) \<and>
            ((\<forall>s'. \<not> pool_step E cfg s s') \<longrightarrow> signalled s)"
    by blast
qed

lemma submitted_call_returns: "fst (submitted_call E cfg t w) = Inr ()"
  using submitted_call_D [of E cfg t w "fst (submitted_call E cfg t w)" "snd (submitted_call E cfg t w)"]
  by simp

lemma sample_batch_run:
  "rtranclp (pool_step E_ok cfg_png) (pool_init [task_a, task_b] w_in) pool_final"
proof -
  let ?s0 = "pool_init [task_a, task_b] w_in"
  let ?s1 = "\<lparr>pending = [task_b], running = [task_a], raised = False, signalled = False,
              p_world = w_in\<rparr>"
  let ?s2 = "\<lparr>pending = [], running = [task_a, task_b], raised = False, signalled = False,
              p_world = w_in\<rparr>"
  let ?s3 = "\<lparr>pending = [], running = [task_a], raised = False, signalled = False,
              p_world = w_after_b\<rparr>"
  let ?s4 = "\<lparr>pending = [], running = [], raised = False, signalled = False,
              p_world = w_after_ba\<rparr>"
  have ne: "task_b \<noteq> task_a" by (simp add: task_a_def task_b_def)
  have 1: "pool_step E_ok cfg_png ?s0 ?s1"
    using pool_step.start [of ?s0 task_a "[task_b]" E_ok cfg_png]
    by (simp add: pool_init_def WORKER_THREADS_def)
  have 2: "pool_step E_ok cfg_png ?s1 ?s2"
    using pool_step.start [of ?s1 task_b "[]" E_ok cfg_png]
    by (simp add: WORKER_THREADS_def)
  have 3: "pool_step E_ok cfg_png ?s2 ?s3"
    using pool_step.finish [of task_b ?s2 E_ok cfg_png "Inr ()" w_after_b] ne
      submitted_call_returns [of E_ok cfg_png task_b w_in]
    by (simp add: w_after_b_def prod_eq_iff)
  have 4: "pool_step E_ok cfg_png ?s3 ?s4"
    using pool_step.finish [of task_a ?s3 E_ok cfg_png "Inr ()" w_after_ba]
      submitted_call_returns [of E_ok cfg_png task_a w_after_b]
    by (simp add: w_after_ba_def prod_eq_iff)
  have 5: "pool_step E_ok cfg_png ?s4 pool_final"
    using pool_step.all_done [of ?s4 E_ok cfg_png]
    by (simp add: pool_final_def)
  from 1 2 3 4 5 show ?thesis
    by (meson rtranclp.rtrancl_into_rtrancl rtranclp.rtrancl_refl)
qed

lemma pool_final_stuck: "\<not> pool_step E_ok cfg_png pool_final s'"
  by (auto elim!: pool_step.cases simp: pool_final_def)

theorem batch_results_then_all_done_witness:
  "rtranclp (pool_step E_ok cfg_png) (pool_init [task_a, task_b] w_in) pool_final \<and>
   signalled pool_final \<and> distinct (map t_idx [task_a, task_b]) \<and>
   (\<forall>s'. \<not> pool_step E_ok cfg_png pool_final s') \<and>
   (\<exists>rs. msg_q (p_world pool_final) = msg_q w_in @ map Result rs @ [Control ''all_done''] \<and>
      length rs = 2 \<and> mset (map r_task_id rs) = {#0, 1#} \<and> distinct (map r_task_id rs))"
proof -
  have sg: "signalled pool_final" by (simp add: pool_final_def)
  have d: "distinct (map t_idx [task_a, task_b])" by (simp add: task_a_def task_b_def)
  have ids: "mset (map t_idx [task_a, task_b]) = {#0, 1#}" by (simp add: task_a_def task_b_def)
  from batch_results_then_all_done [of E_ok cfg_png "[task_a, task_b]" w_in pool_final]
    sample_batch_run sg d ids
  have "\<exists>rs. msg_q (p_world pool_final) = msg_q w_in @ map Result rs @ [Control ''all_done''] \<and>
      length rs = 2 \<and> mset (map r_task_id rs) = {#0, 1#} \<and> distinct (map r_task_id rs)"
    by auto
  with sample_batch_run sg d pool_final_stuck show ?thesis by blast
qed

section \<open>Results at the aggregator\<close>

lemma tree_set_status:
  "map row_status (tree_set it f rows) =
     map (\<lambda>row. if row_item row = it then row_status (f row) else row_status row) rows"
  by (simp add: tree_set_def)

lemma tree_set_keeps:
  assumes "\<And>row. row_item (f row) = row_item row" and "\<And>row. row_path (f row) = row_path row"
  shows "map row_item (tree_set it f rows) = map row_item rows"
    and "map row_path (tree_set it f rows) = map row_path rows"
  using assms by (simp_all add: tree_set_def)

lemma tree_set_item [simp]:
  "(\<And>row. row_item (f row) = row_item row) \<Longrightarrow>
     tree_set it g (tree_set it f rows) = tree_set it (g \<circ> f) rows"
  by (simp add: tree_set_def)

lemma find_item_None: "find_item rows p = None \<longleftrightarrow> p \<notin> set (map row_path rows)"
  by (induction rows) auto

lemma find_item_first:
  assumes "p \<notin> set (map row_path pre)" and "row_path row = p"
  shows "find_item (pre @ row # post) p = Some (row_item row)"
  using assms by (induction pre) auto

text \<open>
  C4, as amended. What the aggregator does with a result message does not depend on the
  message's task identifier: the row is looked up by the message's input path. When no
  row of the list has that path the message changes nothing. When \<open>row\<close> is the first row
  of the list with that path (no row before it has the path) and the status of the
  message is \<open>done\<close> or \<open>error\<close>, the completed count goes up by exactly one, the rows with
  the item of \<open>row\<close> show \<open>Done\<close> or \<open>Error: \<close> and the message, and every other row keeps
  its status; items and paths of the rows stay as they are.
\<close>

theorem aggregator_matches_by_path:
  "handle_msg T (Result (r\<lparr>r_task_id := k\<rparr>)) g = handle_msg T (Result r) g \<and>
   (r_inp_path r \<notin> set (map row_path (tree g)) \<longrightarrow> handle_msg T (Result r) g = g) \<and>
   (tree g = pre @ row # post \<and> r_inp_path r \<notin> set (map row_path pre) \<and>
    row_path row = r_inp_path r \<and> row_item row \<noteq> [] \<and> r_status r \<in> {''done'', ''error''} \<longrightarrow>
      progress_value (handle_msg T (Result r) g) = progress_value g + 1 \<and>
      map row_status (tree (handle_msg T (Result r) g)) =
        map (\<lambda>x. if row_item x = row_item row
                  then (if r_status r = ''done'' then ''Done''
                        else ''Error: '' @ (case r_error r of None \<Rightarrow> ''None'' | Some e \<Rightarrow> e))
                  else row_status x) (tree g) \<and>
      map row_item (tree (handle_msg T (Result r) g)) = map row_item (tree g) \<and>
      map row_path (tree (handle_msg T (Result r) g)) = map row_path (tree g))"
proof (intro conjI impI)
  show "handle_msg T (Result (r\<lparr>r_task_id := k\<rparr>)) g = handle_msg T (Result r) g"
    by (simp add: handle_msg_def handle_result_def Let_def split: option.splits sum.splits)
next
  assume "r_inp_path r \<notin> set (map row_path (tree g))"
  then have "find_item (tree g) (r_inp_path r) = None"
    by (simp add: find_item_None)
  then show "handle_msg T (Result r) g = g"
    by (simp add: handle_msg_def handle_result_def)
next
  assume h: "tree g = pre @ row # post \<and> r_inp_path r \<notin> set (map row_path pre) \<and>
    row_path row = r_inp_path r \<and> row_item row \<noteq> [] \<and> r_status r \<in> {''done'', ''error''}"
  then have "find_item (pre @ row # post) (r_inp_path r) = Some (row_item row)"
    by (intro find_item_first) simp_all
  with h have a: "find_item (tree g) (r_inp_path r) = Some (row_item row) \<and> row_item row \<noteq> [] \<and>
      r_status r \<in> {''done'', ''error''}"
    by simp
  then show "progress_value (handle_msg T (Result r) g) = progress_value g + 1"
    by (auto simp: handle_msg_def handle_result_def Let_def split: sum.splits)
  from a show "map row_status (tree (handle_msg T (Result r) g)) =
        map (\<lambda>x. if row_item x = row_item row
                  then (if r_status r = ''done'' then ''Done''
                        else ''Error: '' @ (case r_error r of None \<Rightarrow> ''None'' | Some e \<Rightarrow> e))
                  else row_status x) (tree g)"
    by (auto simp: handle_msg_def handle_result_def Let_def tree_set_def split: sum.splits)
  from a show "map row_item (tree (handle_msg T (Result r) g)) = map row_item (tree g)"
    by (auto simp: handle_msg_def handle_result_def Let_def tree_set_def split: sum.splits)
  from a show "map row_path (tree (handle_msg T (Result r) g)) = map row_path (tree g)"
    by (auto simp: handle_msg_def handle_result_def Let_def tree_set_def split: sum.splits)
qed

theorem aggregator_matches_by_path_witness:
  "tree (gui_of [queued_row ''I001'' ''in/b.png'', queued_row ''I002'' ''in/a.png''])
     = [queued_row ''I001'' ''in/b.png''] @ queued_row ''I002'' ''in/a.png'' # [] \<and>
   r_inp_path result_a \<notin> set (map row_path [queued_row ''I001'' ''in/b.png'']) \<and>
   row_path (queued_row ''I002'' ''in/a.png'') = r_inp_path result_a \<and>
   row_item (queued_row ''I002'' ''in/a.png'') \<noteq> [] \<and>
   r_status result_a \<in> {''done'', ''error''} \<and>
   progress_value (handle_msg T_plain (Result result_a)
      (gui_of [queued_row ''I001'' ''in/b.png'', queued_row ''I002'' ''in/a.png''])) = 1 \<and>
   map row_status (tree (handle_msg T_plain (Result result_a)
      (gui_of [queued_row ''I001'' ''in/b.png'', queued_row ''I002'' ''in/a.png'']))) = [''Queued'', ''Done''] \<and>
   r_inp_path result_a \<notin> set (map row_path (tree (gui_of [queued_row ''I001'' ''in/b.png'']))) \<and>
   handle_msg T_plain (Result result_a) (gui_of [queued_row ''I001'' ''in/b.png''])
     = gui_of [queued_row ''I001'' ''in/b.png'']"
proof -
  let ?g = "gui_of [queued_row ''I001'' ''in/b.png'', queued_row ''I002'' ''in/a.png'']"
  let ?g1 = "gui_of [queued_row ''I001'' ''in/b.png'']"
  have t: "tree ?g = [queued_row ''I001'' ''in/b.png''] @ queued_row ''I002'' ''in/a.png'' # []"
    by (simp add: gui_of_def)
  have np: "r_inp_path result_a \<notin> set (map row_path [queued_row ''I001'' ''in/b.png''])"
    by (simp add: queued_row_def result_a_def)
  have rp: "row_path (queued_row ''I002'' ''in/a.png'') = r_inp_path result_a"
    by (simp add: queued_row_def result_a_def)
  have ri: "row_item (queued_row ''I002'' ''in/a.png'') \<noteq> []"
    by (simp add: queued_row_def)
  have sd: "r_status result_a = ''done''" by (simp add: result_a_def)
  then have s: "r_status result_a \<in> {''done'', ''error''}" by simp
  have n: "r_inp_path result_a \<notin> set (map row_path (tree ?g1))"
    by (simp add: gui_of_def queued_row_def result_a_def)
  have pv: "progress_value ?g = 0" by (simp add: gui_of_def)
  have st: "map (\<lambda>x. if row_item x = row_item (queued_row ''I002'' ''in/a.png'')
                  then (if r_status result_a = ''done'' then ''Done''
                        else ''Error: '' @ (case r_error result_a of None \<Rightarrow> ''None'' | Some e \<Rightarrow> e))
                  else row_status x) (tree ?g) = [''Queued'', ''Done'']"
    by (simp add: gui_of_def queued_row_def result_a_def)
  from aggregator_matches_by_path [where T = T_plain and r = result_a and k = 0 and g = ?g
      and pre = "[queued_row ''I001'' ''in/b.png'']" and row = "queued_row ''I002'' ''in/a.png''"
      and post = "[]"] t np rp ri s
  have "progress_value (handle_msg T_plain (Result result_a) ?g) = progress_value ?g + 1 \<and>
        map row_status (tree (handle_msg T_plain (Result result_a) ?g)) =
          map (\<lambda>x. if row_item x = row_item (queued_row ''I002'' ''in/a.png'')
                  then (if r_status result_a = ''done'' then ''Done''
                        else ''Error: '' @ (case r_error result_a of None \<Rightarrow> ''None'' | Some e \<Rightarrow> e))
                  else row_status x) (tree ?g)"
    by blast
  then have m: "progress_value (handle_msg T_plain (Result result_a) ?g) = 1 \<and>
        map row_status (tree (handle_msg T_plain (Result result_a) ?g)) = [''Queued'', ''Done'']"
    by (simp only: pv st) simp
  from aggregator_matches_by_path [where T = T_plain and r = result_a and k = 0 and g = ?g1] n
  have u: "handle_msg T_plain (Result result_a) ?g1 = ?g1"
    by blast
  from t np rp ri s m n u show ?thesis by blast
qed

text \<open>
  C4 as stated fails: the result of task 0 for \<open>in/a.png\<close>, drained when the list holds
  one row, for \<open>in/b.png\<close> (the list was cleared and filled again while the batch ran),
  leaves that row \<open>Queued\<close> and the completed count where it was.
\<close>

theorem result_for_other_row_dropped:
  "r_task_id result_a = 0 \<and>
   map row_status (tree (gui_of [queued_row ''I001'' ''in/b.png''])) = [''Queued''] \<and>
   handle_msg T_plain (Result result_a) (gui_of [queued_row ''I001'' ''in/b.png''])
     = gui_of [queued_row ''I001'' ''in/b.png''] \<and>
   progress_value (handle_msg T_plain (Result result_a) (gui_of [queued_row ''I001'' ''in/b.png'']))
     \<noteq> progress_value (gui_of [queued_row ''I001'' ''in/b.png'']) + 1"
proof -
  have "handle_msg T_plain (Result result_a) (gui_of [queued_row ''I001'' ''in/b.png''])
     = gui_of [queued_row ''I001'' ''in/b.png'']"
    by (simp add: handle_msg_def handle_result_def gui_of_def queued_row_def result_a_def)
  moreover have "r_task_id result_a = 0" by (simp add: result_a_def)
  moreover have "map row_status (tree (gui_of [queued_row ''I001'' ''in/b.png''])) = [''Queued'']"
    by (simp add: gui_of_def queued_row_def)
  ultimately show ?thesis by simp
qed

end
